theory Spec2Isabelle
  imports Main "HOL-Library.Multiset"
begin

section \<open>Establishing cursors on remote shards: the data\<close>

text \<open>
  The function verified here is \<open>establishCursors\<close> of the query router. It sends one
  command to every shard, gathers the cursor each shard opens, and on a failure drains
  the outstanding responses, schedules \<open>killCursors\<close> for every cursor it knows of and
  rethrows the failure.

  BSON documents are opaque to the function: they are the type variable \<open>'b\<close>.
\<close>

type_synonym ShardId = string
type_synonym HostAndPort = string
type_synonym CursorId = int

text \<open>A \<open>Status\<close> that is not OK: an error code and a reason. \<open>StatusWith<T>\<close> is the sum
  \<open>Status + T\<close>, with \<open>Inl\<close> the error. A thrown \<open>DBException\<close> carries a \<open>Status\<close>.\<close>

record Status =
  code :: int
  reason :: string

record NamespaceString =
  db :: string
  coll :: string

record 'b RemoteCommandResponse =
  data :: 'b

text \<open>Modelled from the spec: the class \<open>CursorResponse\<close> is declared in
  \<open>cursor_response.h\<close>, which is not among the sources. The spec gives the response of an
  open-cursor command as \<open>{cursorId, namespace, firstBatch}\<close>.\<close>

record 'b CursorResponse =
  getNSS :: NamespaceString
  getCursorId :: CursorId
  getBatch :: "'b list"

text \<open>\<open>AsyncRequestsSender::Response\<close>, as lines 76 to 84 use it.\<close>

record 'b Response =
  shardId :: ShardId
  swResponse :: "Status + 'b RemoteCommandResponse"
  shardHostAndPort :: "HostAndPort option"

text \<open>\<open>ClusterClientCursorParams::RemoteCursor\<close>, built at lines 82 and 117. Its first
  field is \<open>shardId\<close> in the source; it is \<open>cursorShardId\<close> here since \<open>Response\<close> has
  a field of that name.\<close>

record 'b RemoteCursor =
  cursorShardId :: ShardId
  hostAndPort :: HostAndPort
  cursorResponse :: "'b CursorResponse"

text \<open>The \<open>killCursors\<close> command of line 126 and the request of line 127 that carries it.\<close>

record KillCursorsRequest =
  nss :: NamespaceString
  cursorIds :: "CursorId list"

record RemoteCommandRequest =
  target :: HostAndPort
  dbname :: string
  cmdObj :: KillCursorsRequest

section \<open>The collaborators\<close>

text \<open>
  Modelled from the spec: the class \<open>AsyncRequestsSender\<close> is not among the sources. The
  spec gives it as a capability with \<open>hasMore\<close>, a blocking \<open>next\<close> and \<open>stopRetrying\<close>,
  whose completions arrive in completion order. The sender is the list of what the successive
  calls of \<open>next\<close> are going to produce, in arrival order, together with the log of the calls
  made on it. A call of \<open>next\<close> delivers a response, whose \<open>swResponse\<close> may be an error; the
  calls stand inside the handlers of lines 85 and 138, which catch a \<open>DBException\<close>, so a
  call may also throw one. What \<open>stopRetrying\<close> changes inside the sender shows in what the
  later calls of \<open>next\<close> produce; the properties hold for every such list.
\<close>

datatype 'b Event = Delivers "'b Response" | NextThrows Status

datatype ARSCall = CallNext | CallStopRetrying

record 'b AsyncRequestsSender =
  requests :: "(ShardId \<times> 'b) list"
  pending :: "'b Event list"
  calls :: "ARSCall list"

definition AsyncRequestsSender ::
  "(ShardId \<times> 'b) list \<Rightarrow> 'b Event list \<Rightarrow> 'b AsyncRequestsSender" where
  "AsyncRequestsSender reqs schedule = \<lparr>requests = reqs, pending = schedule, calls = []\<rparr>"

definition arsDone :: "'b AsyncRequestsSender \<Rightarrow> bool" where
  "arsDone ars = (pending ars = [])"

text \<open>\<open>next\<close> is only called on a sender that is not done (lines 74 and 107).\<close>

definition arsNext :: "'b AsyncRequestsSender \<Rightarrow> 'b Event \<times> 'b AsyncRequestsSender" where
  "arsNext ars =
     (hd (pending ars), ars\<lparr>pending := tl (pending ars), calls := calls ars @ [CallNext]\<rparr>)"

definition stopRetrying :: "'b AsyncRequestsSender \<Rightarrow> 'b AsyncRequestsSender" where
  "stopRetrying ars = ars\<lparr>calls := calls ars @ [CallStopRetrying]\<rparr>"

text \<open>
  Modelled from the spec: the task executor is not among the sources. Scheduling a remote
  command returns a handle, returns an error status, or throws; which one is up to the
  executor, here a function of the requests submitted so far and of the request.
\<close>

datatype ScheduleResult = Scheduled | Rejected Status | ScheduleThrows Status

type_synonym Executor = "RemoteCommandRequest list \<Rightarrow> RemoteCommandRequest \<Rightarrow> ScheduleResult"

section \<open>establishCursors\<close>

text \<open>\<open>CursorResponse::parseFromBSON\<close> and the array
  \<open>RemoteCommandRetryScheduler::kAllRetriableErrors\<close> are not among the sources: they
  are the parameters \<open>parseFromBSON\<close> and \<open>kAllRetriableErrors\<close> of every function below.\<close>

text \<open>How a block of the function ends: it runs to its end, it throws, or it dereferences an
  empty optional (\<open>*response.shardHostAndPort\<close> at lines 83 and 118).\<close>

datatype Signal = Completed | Threw Status | DerefNone

text \<open>Lines 76 to 84, the body of the inner \<open>try\<close>. Both \<open>uassertStatusOK\<close> throw the
  status they are given when it is an error.\<close>

definition collectBody ::
  "('b \<Rightarrow> Status + 'b CursorResponse) \<Rightarrow> 'b Event \<Rightarrow> 'b RemoteCursor list
     \<Rightarrow> Signal \<times> 'b RemoteCursor list" where
  "collectBody parseFromBSON ev remoteCursors =
     (case ev of
        NextThrows ex \<Rightarrow> (Threw ex, remoteCursors)
      | Delivers response \<Rightarrow>
          (case swResponse response of
             Inl st \<Rightarrow> (Threw st, remoteCursors)
           | Inr resp \<Rightarrow>
               (case parseFromBSON (data resp) of
                  Inl st \<Rightarrow> (Threw st, remoteCursors)
                | Inr cr \<Rightarrow>
                    (case shardHostAndPort response of
                       None \<Rightarrow> (DerefNone, remoteCursors)
                     | Some host \<Rightarrow>
                         (Completed,
                          remoteCursors @
                            [\<lparr>cursorShardId = shardId response, hostAndPort = host,
                              cursorResponse = cr\<rparr>])))))"

text \<open>Lines 75 to 95: the inner \<open>try\<close> with its handler. \<open>Completed\<close> is both the normal end
  of the body and the \<open>continue\<close> of line 92; \<open>Threw\<close> is the \<open>throw\<close> of line 94.\<close>

definition collectStep ::
  "('b \<Rightarrow> Status + 'b CursorResponse) \<Rightarrow> int list \<Rightarrow> bool \<Rightarrow> 'b Event
     \<Rightarrow> 'b RemoteCursor list \<Rightarrow> Signal \<times> 'b RemoteCursor list" where
  "collectStep parseFromBSON kAllRetriableErrors allowPartialResults ev remoteCursors =
     (case collectBody parseFromBSON ev remoteCursors of
        (Threw ex, cursors) \<Rightarrow>
          (if allowPartialResults \<and> code ex \<in> set kAllRetriableErrors
           then (Completed, cursors)
           else (Threw ex, cursors))
      | other \<Rightarrow> other)"

text \<open>Lines 74 to 96: the loop that gets the responses.\<close>

function collectLoop ::
  "('b \<Rightarrow> Status + 'b CursorResponse) \<Rightarrow> int list \<Rightarrow> bool \<Rightarrow> 'b AsyncRequestsSender
     \<Rightarrow> 'b RemoteCursor list \<Rightarrow> Signal \<times> 'b AsyncRequestsSender \<times> 'b RemoteCursor list" where
  "collectLoop parseFromBSON kAllRetriableErrors allowPartialResults ars remoteCursors =
     (if arsDone ars then (Completed, ars, remoteCursors)
      else
        (case arsNext ars of
           (ev, ars') \<Rightarrow>
             (case collectStep parseFromBSON kAllRetriableErrors allowPartialResults ev
                     remoteCursors of
                (Completed, cursors) \<Rightarrow>
                  collectLoop parseFromBSON kAllRetriableErrors allowPartialResults ars' cursors
              | (sig, cursors) \<Rightarrow> (sig, ars', cursors))))"
  by pat_completeness auto
termination
  by (relation "measure (\<lambda>(p, k, a, ars, cs). length (pending ars))")
     (auto simp: arsDone_def arsNext_def)

text \<open>Lines 108 to 120, the body of the loop that drains the sender.\<close>

definition drainStep ::
  "('b \<Rightarrow> Status + 'b CursorResponse) \<Rightarrow> 'b Event \<Rightarrow> 'b RemoteCursor list
     \<Rightarrow> Signal \<times> 'b RemoteCursor list" where
  "drainStep parseFromBSON ev remoteCursors =
     (case ev of
        NextThrows ex \<Rightarrow> (Threw ex, remoteCursors)
      | Delivers response \<Rightarrow>
          (let swCursorResponse =
                 (case swResponse response of
                    Inr resp \<Rightarrow> parseFromBSON (data resp)
                  | Inl st \<Rightarrow> Inl st)
           in case swCursorResponse of
                Inr cr \<Rightarrow>
                  (case shardHostAndPort response of
                     None \<Rightarrow> (DerefNone, remoteCursors)
                   | Some host \<Rightarrow>
                       (Completed,
                        remoteCursors @
                          [\<lparr>cursorShardId = shardId response, hostAndPort = host,
                            cursorResponse = cr\<rparr>]))
              | Inl st \<Rightarrow> (Completed, remoteCursors)))"

text \<open>Lines 107 to 121.\<close>

function drainLoop ::
  "('b \<Rightarrow> Status + 'b CursorResponse) \<Rightarrow> 'b AsyncRequestsSender \<Rightarrow> 'b RemoteCursor list
     \<Rightarrow> Signal \<times> 'b AsyncRequestsSender \<times> 'b RemoteCursor list" where
  "drainLoop parseFromBSON ars remoteCursors =
     (if arsDone ars then (Completed, ars, remoteCursors)
      else
        (case arsNext ars of
           (ev, ars') \<Rightarrow>
             (case drainStep parseFromBSON ev remoteCursors of
                (Completed, cursors) \<Rightarrow> drainLoop parseFromBSON ars' cursors
              | (sig, cursors) \<Rightarrow> (sig, ars', cursors))))"
  by pat_completeness auto
termination
  by (relation "measure (\<lambda>(p, ars, cs). length (pending ars))")
     (auto simp: arsDone_def arsNext_def)

text \<open>Lines 125 to 128: the request that kills one cursor.\<close>

definition killRequest :: "NamespaceString \<Rightarrow> 'b RemoteCursor \<Rightarrow> RemoteCommandRequest" where
  "killRequest ns remoteCursor =
     (let cmd = \<lparr>nss = ns, cursorIds = [getCursorId (cursorResponse remoteCursor)]\<rparr>
      in \<lparr>target = hostAndPort remoteCursor, dbname = db ns, cmdObj = cmd\<rparr>)"

text \<open>Lines 124 to 137: one request per cursor, in the order of the list. The second argument
  is the list of the requests submitted so far. A status returned by the executor is ignored
  (line 136); an exception leaves the loop.\<close>

fun killLoop ::
  "Executor \<Rightarrow> RemoteCommandRequest list \<Rightarrow> NamespaceString \<Rightarrow> 'b RemoteCursor list
     \<Rightarrow> Signal \<times> RemoteCommandRequest list" where
  "killLoop executor submitted ns [] = (Completed, submitted)"
| "killLoop executor submitted ns (remoteCursor # rest) =
     (let request = killRequest ns remoteCursor
      in case executor submitted request of
           ScheduleThrows ex \<Rightarrow> (Threw ex, submitted @ [request])
         | _ \<Rightarrow> killLoop executor (submitted @ [request]) ns rest)"

text \<open>What a call of \<open>establishCursors\<close> leaves behind: how it ended, the sender, the vector
  \<open>remoteCursors\<close> and the requests submitted to the executor.\<close>

datatype 'b Outcome = Returns "'b RemoteCursor list" | Raises Status | UndefinedBehaviour

record 'b Final =
  outcome :: "'b Outcome"
  sender :: "'b AsyncRequestsSender"
  established :: "'b RemoteCursor list"
  submittedKills :: "RemoteCommandRequest list"

text \<open>Lines 98 to 143, the handler of the outer \<open>try\<close>, entered with the exception \<open>ex\<close>.
  Whatever the inner \<open>try\<close> of lines 102 to 137 throws is dropped at line 138, and line 142
  rethrows \<open>ex\<close>.\<close>

definition fatalPath ::
  "('b \<Rightarrow> Status + 'b CursorResponse) \<Rightarrow> Executor \<Rightarrow> NamespaceString \<Rightarrow> Status
     \<Rightarrow> 'b AsyncRequestsSender \<Rightarrow> 'b RemoteCursor list \<Rightarrow> 'b Final" where
  "fatalPath parseFromBSON executor ns ex ars remoteCursors =
     (case drainLoop parseFromBSON (stopRetrying ars) remoteCursors of
        (Completed, ars', cursors) \<Rightarrow>
          (case killLoop executor [] ns cursors of
             (sig, submitted) \<Rightarrow>
               \<lparr>outcome = Raises ex, sender = ars', established = cursors,
                submittedKills = submitted\<rparr>)
      | (Threw ex', ars', cursors) \<Rightarrow>
          \<lparr>outcome = Raises ex, sender = ars', established = cursors, submittedKills = []\<rparr>
      | (DerefNone, ars', cursors) \<Rightarrow>
          \<lparr>outcome = UndefinedBehaviour, sender = ars', established = cursors,
           submittedKills = []\<rparr>)"

text \<open>Lines 50 to 144. \<open>schedule\<close> is what the sender, once built from the requests, is going
  to produce. The operation context, the read preference and the retry policy are handed to
  the sender unread and are left out.\<close>

definition establishCursors ::
  "('b \<Rightarrow> Status + 'b CursorResponse) \<Rightarrow> int list \<Rightarrow> Executor \<Rightarrow> 'b Event list
     \<Rightarrow> NamespaceString \<Rightarrow> (ShardId \<times> 'b) list \<Rightarrow> bool \<Rightarrow> 'b Final" where
  "establishCursors parseFromBSON kAllRetriableErrors executor schedule ns remotes
       allowPartialResults =
     (let reqs = map (\<lambda>remote. (fst remote, snd remote)) remotes;
          ars = AsyncRequestsSender reqs schedule
      in case collectLoop parseFromBSON kAllRetriableErrors allowPartialResults ars [] of
           (Completed, ars', cursors) \<Rightarrow>
             \<lparr>outcome = Returns cursors, sender = ars', established = cursors,
              submittedKills = []\<rparr>
         | (Threw ex, ars', cursors) \<Rightarrow> fatalPath parseFromBSON executor ns ex ars' cursors
         | (DerefNone, ars', cursors) \<Rightarrow>
             \<lparr>outcome = UndefinedBehaviour, sender = ars', established = cursors,
              submittedKills = []\<rparr>)"

section \<open>What a completion carries\<close>

text \<open>The vocabulary in which the properties are stated. A completion carries a failure, the
  status that lines 76 to 80 throw on it, or a parsed cursor response, never both.\<close>

definition failure :: "('b \<Rightarrow> Status + 'b CursorResponse) \<Rightarrow> 'b Event \<Rightarrow> Status option" where
  "failure parseFromBSON ev =
     (case ev of
        NextThrows ex \<Rightarrow> Some ex
      | Delivers response \<Rightarrow>
          (case swResponse response of
             Inl st \<Rightarrow> Some st
           | Inr resp \<Rightarrow>
               (case parseFromBSON (data resp) of Inl st \<Rightarrow> Some st | Inr cr \<Rightarrow> None)))"

definition parsed ::
  "('b \<Rightarrow> Status + 'b CursorResponse) \<Rightarrow> 'b Event \<Rightarrow> 'b CursorResponse option" where
  "parsed parseFromBSON ev =
     (case ev of
        NextThrows ex \<Rightarrow> None
      | Delivers response \<Rightarrow>
          (case swResponse response of
             Inl st \<Rightarrow> None
           | Inr resp \<Rightarrow>
               (case parseFromBSON (data resp) of Inl st \<Rightarrow> None | Inr cr \<Rightarrow> Some cr)))"

text \<open>The host of a delivered response, when it has one.\<close>

definition eventHost :: "'b Event \<Rightarrow> HostAndPort option" where
  "eventHost ev =
     (case ev of NextThrows ex \<Rightarrow> None | Delivers response \<Rightarrow> shardHostAndPort response)"

text \<open>The precondition on the sender: a response whose \<open>swResponse\<close> is OK names the host
  that sent it.\<close>

definition hostPresent :: "'b Event \<Rightarrow> bool" where
  "hostPresent ev =
     (case ev of
        NextThrows ex \<Rightarrow> True
      | Delivers response \<Rightarrow>
          (case swResponse response of
             Inl st \<Rightarrow> True
           | Inr resp \<Rightarrow> shardHostAndPort response \<noteq> None))"

text \<open>The cursor that a successfully parsed response from a known host stands for.\<close>

definition cursorOf ::
  "('b \<Rightarrow> Status + 'b CursorResponse) \<Rightarrow> 'b Event \<Rightarrow> 'b RemoteCursor option" where
  "cursorOf parseFromBSON ev =
     (case ev of
        NextThrows ex \<Rightarrow> None
      | Delivers response \<Rightarrow>
          (case parsed parseFromBSON ev of
             None \<Rightarrow> None
           | Some cr \<Rightarrow>
               (case shardHostAndPort response of
                  None \<Rightarrow> None
                | Some host \<Rightarrow>
                    Some \<lparr>cursorShardId = shardId response, hostAndPort = host,
                          cursorResponse = cr\<rparr>)))"

text \<open>The test of lines 87 to 91.\<close>

definition swallowed :: "int list \<Rightarrow> bool \<Rightarrow> Status \<Rightarrow> bool" where
  "swallowed kAllRetriableErrors allowPartialResults st =
     (allowPartialResults \<and> code st \<in> set kAllRetriableErrors)"

text \<open>A completion that lets the first loop go on: a cursor, or a swallowed failure.\<close>

definition benign ::
  "('b \<Rightarrow> Status + 'b CursorResponse) \<Rightarrow> int list \<Rightarrow> bool \<Rightarrow> 'b Event \<Rightarrow> bool" where
  "benign parseFromBSON kAllRetriableErrors allowPartialResults ev =
     (case failure parseFromBSON ev of
        None \<Rightarrow> hostPresent ev
      | Some st \<Rightarrow> swallowed kAllRetriableErrors allowPartialResults st)"

text \<open>The first failure, in arrival order, that is not swallowed.\<close>

fun firstFatal ::
  "('b \<Rightarrow> Status + 'b CursorResponse) \<Rightarrow> int list \<Rightarrow> bool \<Rightarrow> 'b Event list \<Rightarrow> Status option"
  where
  "firstFatal parseFromBSON kAllRetriableErrors allowPartialResults [] = None"
| "firstFatal parseFromBSON kAllRetriableErrors allowPartialResults (ev # evs) =
     (case failure parseFromBSON ev of
        None \<Rightarrow> firstFatal parseFromBSON kAllRetriableErrors allowPartialResults evs
      | Some st \<Rightarrow>
          (if swallowed kAllRetriableErrors allowPartialResults st
           then firstFatal parseFromBSON kAllRetriableErrors allowPartialResults evs
           else Some st))"

definition isDelivery :: "'b Event \<Rightarrow> bool" where
  "isDelivery ev = (case ev of Delivers response \<Rightarrow> True | NextThrows ex \<Rightarrow> False)"

text \<open>The shards of the delivered responses, in arrival order.\<close>

definition deliveredShardIds :: "'b Event list \<Rightarrow> ShardId list" where
  "deliveredShardIds evs =
     List.map_filter
       (\<lambda>ev. case ev of Delivers response \<Rightarrow> Some (shardId response) | NextThrows ex \<Rightarrow> None)
       evs"

text \<open>How many completions the drain of lines 107 to 121 fetches from a list of pending
  ones: all of them, or those up to and with the first call of \<open>next\<close> that throws.\<close>

definition drainFetches :: "'b Event list \<Rightarrow> nat" where
  "drainFetches evs = min (length evs) (Suc (length (takeWhile isDelivery evs)))"

text \<open>An executor that never throws: it schedules or it returns an error status.\<close>

definition neverThrows :: "Executor \<Rightarrow> bool" where
  "neverThrows executor = (\<forall>submitted request ex. executor submitted request \<noteq> ScheduleThrows ex)"

text \<open>A completion that opens a cursor: a successfully parsed cursor response, from a host as
  the precondition has it.\<close>

definition opensCursor :: "('b \<Rightarrow> Status + 'b CursorResponse) \<Rightarrow> 'b Event \<Rightarrow> bool" where
  "opensCursor parseFromBSON ev = (parsed parseFromBSON ev \<noteq> None \<and> hostPresent ev)"

section \<open>A cluster of three shards\<close>

text \<open>The concrete inputs at which the properties below are instantiated. A document is a
  command, a reply that opens a cursor (collection and cursor id), a reply that reports an
  error code, or bytes that are no reply at all.\<close>

datatype Doc = Command string | CursorReply string int | ErrorReply int | Garbage

fun parseDoc :: "Doc \<Rightarrow> Status + Doc CursorResponse" where
  "parseDoc (CursorReply c i) =
     Inr \<lparr>getNSS = \<lparr>db = ''test'', coll = c\<rparr>, getCursorId = i, getBatch = []\<rparr>"
| "parseDoc (ErrorReply c) = Inl \<lparr>code = c, reason = ''error reply''\<rparr>"
| "parseDoc d = Inl \<lparr>code = 9, reason = ''FailedToParse''\<rparr>"

text \<open>HostUnreachable, HostNotFound and NetworkTimeout.\<close>

definition retriable :: "int list" where
  "retriable = [6, 7, 89]"

definition testColl :: NamespaceString where
  "testColl = \<lparr>db = ''test'', coll = ''coll''\<rparr>"

definition threeShards :: "(ShardId \<times> Doc) list" where
  "threeShards =
     [(''shard1'', Command ''find''), (''shard2'', Command ''find''),
      (''shard3'', Command ''find'')]"

definition opened :: "ShardId \<Rightarrow> HostAndPort \<Rightarrow> string \<Rightarrow> int \<Rightarrow> Doc Event" where
  "opened s h c i =
     Delivers \<lparr>shardId = s, swResponse = Inr \<lparr>data = CursorReply c i\<rparr>,
               shardHostAndPort = Some h\<rparr>"

definition cursorAt :: "ShardId \<Rightarrow> HostAndPort \<Rightarrow> string \<Rightarrow> int \<Rightarrow> Doc RemoteCursor" where
  "cursorAt s h c i =
     \<lparr>cursorShardId = s, hostAndPort = h,
      cursorResponse = \<lparr>getNSS = \<lparr>db = ''test'', coll = c\<rparr>, getCursorId = i, getBatch = []\<rparr>\<rparr>"

definition networkTimeout :: Status where
  "networkTimeout = \<lparr>code = 89, reason = ''NetworkTimeout''\<rparr>"

definition namespaceNotFound :: Status where
  "namespaceNotFound = \<lparr>code = 26, reason = ''error reply''\<rparr>"

definition interrupted :: Status where
  "interrupted = \<lparr>code = 11601, reason = ''Interrupted''\<rparr>"

definition shutdownInProgress :: Status where
  "shutdownInProgress = \<lparr>code = 91, reason = ''ShutdownInProgress''\<rparr>"

text \<open>The shard could not be reached: a transport failure, with no host.\<close>

definition timedOut :: "ShardId \<Rightarrow> Doc Event" where
  "timedOut s = Delivers \<lparr>shardId = s, swResponse = Inl networkTimeout, shardHostAndPort = None\<rparr>"

text \<open>The shard replied with an error document: the response is delivered, its parse fails
  with the code of the document.\<close>

definition repliedError :: "ShardId \<Rightarrow> HostAndPort \<Rightarrow> int \<Rightarrow> Doc Event" where
  "repliedError s h c =
     Delivers \<lparr>shardId = s, swResponse = Inr \<lparr>data = ErrorReply c\<rparr>, shardHostAndPort = Some h\<rparr>"

definition acceptAll :: Executor where
  "acceptAll submitted request = Scheduled"

definition rejectAll :: Executor where
  "rejectAll submitted request = Rejected shutdownInProgress"

definition throwAll :: Executor where
  "throwAll submitted request = ScheduleThrows shutdownInProgress"

section \<open>The two loops, unfolded\<close>

declare collectLoop.simps [simp del] drainLoop.simps [simp del]

lemma collectLoop_Nil:
  "pending ars = [] \<Longrightarrow> collectLoop p k a ars cs = (Completed, ars, cs)"
  by (subst collectLoop.simps) (simp add: arsDone_def)

lemma collectLoop_Cons:
  "pending ars = ev # rest \<Longrightarrow>
   collectLoop p k a ars cs =
     (case collectStep p k a ev cs of
        (Completed, cs') \<Rightarrow>
          collectLoop p k a (ars\<lparr>pending := rest, calls := calls ars @ [CallNext]\<rparr>) cs'
      | (sig, cs') \<Rightarrow> (sig, ars\<lparr>pending := rest, calls := calls ars @ [CallNext]\<rparr>, cs'))"
  by (subst collectLoop.simps) (simp add: arsDone_def arsNext_def)

lemma drainLoop_Nil:
  "pending ars = [] \<Longrightarrow> drainLoop p ars cs = (Completed, ars, cs)"
  by (subst drainLoop.simps) (simp add: arsDone_def)

lemma drainLoop_Cons:
  "pending ars = ev # rest \<Longrightarrow>
   drainLoop p ars cs =
     (case drainStep p ev cs of
        (Completed, cs') \<Rightarrow>
          drainLoop p (ars\<lparr>pending := rest, calls := calls ars @ [CallNext]\<rparr>) cs'
      | (sig, cs') \<Rightarrow> (sig, ars\<lparr>pending := rest, calls := calls ars @ [CallNext]\<rparr>, cs'))"
  by (subst drainLoop.simps) (simp add: arsDone_def arsNext_def)

text \<open>One step of the first loop, by what the completion carries.\<close>

lemma collectStep_cursor:
  "failure p ev = None \<Longrightarrow> hostPresent ev \<Longrightarrow>
   collectStep p k a ev cs = (Completed, cs @ [the (cursorOf p ev)]) \<and> cursorOf p ev \<noteq> None"
  by (auto simp: collectStep_def collectBody_def failure_def hostPresent_def cursorOf_def
      parsed_def split: Event.splits sum.splits option.splits)

lemma collectStep_failure:
  "failure p ev = Some st \<Longrightarrow>
   collectStep p k a ev cs = (if swallowed k a st then (Completed, cs) else (Threw st, cs))"
  by (auto simp: collectStep_def collectBody_def failure_def swallowed_def
      split: Event.splits sum.splits option.splits)

lemma failure_cursorOf: "failure p ev = Some st \<Longrightarrow> cursorOf p ev = None"
  by (auto simp: failure_def cursorOf_def parsed_def split: Event.splits sum.splits option.splits)

lemma map_filter_Cons_None: "f x = None \<Longrightarrow> List.map_filter f (x # xs) = List.map_filter f xs"
  by (simp add: List.map_filter_def)

lemma map_filter_Cons_Some: "f x = Some y \<Longrightarrow> List.map_filter f (x # xs) = y # List.map_filter f xs"
  by (simp add: List.map_filter_def)

lemma map_filter_append:
  "List.map_filter f (xs @ ys) = List.map_filter f xs @ List.map_filter f ys"
  by (simp add: List.map_filter_def)

lemma collectLoop_benign:
  "pending ars = evs \<Longrightarrow> list_all (benign p k a) evs \<Longrightarrow>
   collectLoop p k a ars cs =
     (Completed, ars\<lparr>pending := [], calls := calls ars @ replicate (length evs) CallNext\<rparr>,
      cs @ List.map_filter (cursorOf p) evs)"
proof (induction evs arbitrary: ars cs)
  case Nil
  then show ?case by (simp add: collectLoop_Nil)
next
  case (Cons ev evs)
  let ?ars = "ars\<lparr>pending := evs, calls := calls ars @ [CallNext]\<rparr>"
  have rest: "list_all (benign p k a) evs" and b: "benign p k a ev"
    using Cons.prems by simp_all
  have ih: "\<And>cs'. collectLoop p k a ?ars cs' =
      (Completed, ?ars\<lparr>pending := [], calls := calls ?ars @ replicate (length evs) CallNext\<rparr>,
       cs' @ List.map_filter (cursorOf p) evs)"
    by (rule Cons.IH) (simp_all add: rest)
  show ?case
  proof (cases "failure p ev")
    case None
    then have h: "hostPresent ev" using b by (simp add: benign_def)
    from collectStep_cursor [OF None h, of k a cs]
    obtain c where c: "cursorOf p ev = Some c" "collectStep p k a ev cs = (Completed, cs @ [c])"
      by auto
    show ?thesis
      using Cons.prems(1) c ih
      by (simp add: collectLoop_Cons map_filter_Cons_Some replicate_append_same [symmetric])
  next
    case (Some st)
    then have "swallowed k a st" using b by (simp add: benign_def)
    then have "collectStep p k a ev cs = (Completed, cs)"
      using collectStep_failure [OF Some] by simp
    then show ?thesis
      using Cons.prems(1) ih failure_cursorOf [OF Some]
      by (simp add: collectLoop_Cons map_filter_Cons_None replicate_append_same [symmetric])
  qed
qed


lemma collectLoop_fatal:
  assumes "pending ars = pre @ ev # post"
    and "list_all (benign p k a) pre"
    and "failure p ev = Some st"
    and "\<not> swallowed k a st"
  shows "collectLoop p k a ars cs =
     (Threw st, ars\<lparr>pending := post, calls := calls ars @ replicate (Suc (length pre)) CallNext\<rparr>,
      cs @ List.map_filter (cursorOf p) pre)"
  using assms(1,2)
proof (induction pre arbitrary: ars cs)
  case Nil
  then show ?case
    using collectStep_failure [OF assms(3), of k a cs] assms(4)
    by (simp add: collectLoop_Cons)
next
  case (Cons e pre)
  let ?ars = "ars\<lparr>pending := pre @ ev # post, calls := calls ars @ [CallNext]\<rparr>"
  have rest: "list_all (benign p k a) pre" and b: "benign p k a e"
    using Cons.prems by simp_all
  have ih: "\<And>cs'. collectLoop p k a ?ars cs' =
      (Threw st, ?ars\<lparr>pending := post, calls := calls ?ars @ replicate (Suc (length pre)) CallNext\<rparr>,
       cs' @ List.map_filter (cursorOf p) pre)"
    by (rule Cons.IH) (simp_all add: rest)
  have p: "pending ars = e # (pre @ ev # post)"
    using Cons.prems(1) by simp
  show ?case
  proof (cases "failure p e")
    case None
    then have h: "hostPresent e" using b by (simp add: benign_def)
    from collectStep_cursor [OF None h, of k a cs]
    obtain c where c: "cursorOf p e = Some c" "collectStep p k a e cs = (Completed, cs @ [c])"
      by auto
    show ?thesis
      using c ih
      by (simp add: collectLoop_Cons [OF p] map_filter_Cons_Some
          replicate_append_same [symmetric])
  next
    case (Some st')
    then have "swallowed k a st'" using b by (simp add: benign_def)
    then have "collectStep p k a e cs = (Completed, cs)"
      using collectStep_failure [OF Some] by simp
    then show ?thesis
      using ih failure_cursorOf [OF Some]
      by (simp add: collectLoop_Cons [OF p] map_filter_Cons_None
          replicate_append_same [symmetric])
  qed
qed

text \<open>A schedule that respects the precondition runs into its first fatal failure, or has
  none.\<close>

lemma firstFatal_None:
  "list_all hostPresent evs \<Longrightarrow> firstFatal p k a evs = None \<Longrightarrow> list_all (benign p k a) evs"
  by (induction evs) (auto simp: benign_def split: option.splits if_splits)

lemma firstFatal_Some:
  "list_all hostPresent evs \<Longrightarrow> firstFatal p k a evs = Some st \<Longrightarrow>
   \<exists>pre ev post. evs = pre @ ev # post \<and> list_all (benign p k a) pre \<and>
     failure p ev = Some st \<and> \<not> swallowed k a st"
proof (induction evs)
  case Nil
  then show ?case by simp
next
  case (Cons e evs)
  show ?case
  proof (cases "benign p k a e")
    case True
    then have "firstFatal p k a evs = Some st"
      using Cons.prems(2) by (auto simp: benign_def split: option.splits if_splits)
    with Cons.IH Cons.prems(1) obtain pre ev post where
      "evs = pre @ ev # post" "list_all (benign p k a) pre" "failure p ev = Some st"
      "\<not> swallowed k a st"
      by auto
    with True have "e # evs = (e # pre) @ ev # post \<and> list_all (benign p k a) (e # pre) \<and>
      failure p ev = Some st \<and> \<not> swallowed k a st"
      by simp
    then show ?thesis by blast
  next
    case False
    then have "failure p e = Some st \<and> \<not> swallowed k a st"
      using Cons.prems by (auto simp: benign_def split: option.splits if_splits)
    then have "e # evs = [] @ e # evs \<and> list_all (benign p k a) [] \<and>
      failure p e = Some st \<and> \<not> swallowed k a st"
      by simp
    then show ?thesis by blast
  qed
qed

text \<open>The second loop.\<close>

lemma drainStep_delivery:
  "isDelivery ev \<Longrightarrow> hostPresent ev \<Longrightarrow>
   drainStep p ev cs =
     (Completed, case cursorOf p ev of None \<Rightarrow> cs | Some c \<Rightarrow> cs @ [c])"
  by (auto simp: drainStep_def isDelivery_def hostPresent_def cursorOf_def parsed_def
      split: Event.splits sum.splits option.splits)

lemma drainLoop_deliveries:
  "pending ars = evs \<Longrightarrow> list_all isDelivery evs \<Longrightarrow> list_all hostPresent evs \<Longrightarrow>
   drainLoop p ars cs =
     (Completed, ars\<lparr>pending := [], calls := calls ars @ replicate (length evs) CallNext\<rparr>,
      cs @ List.map_filter (cursorOf p) evs)"
proof (induction evs arbitrary: ars cs)
  case Nil
  then show ?case by (simp add: drainLoop_Nil)
next
  case (Cons ev evs)
  let ?ars = "ars\<lparr>pending := evs, calls := calls ars @ [CallNext]\<rparr>"
  have ih: "\<And>cs'. drainLoop p ?ars cs' =
      (Completed, ?ars\<lparr>pending := [], calls := calls ?ars @ replicate (length evs) CallNext\<rparr>,
       cs' @ List.map_filter (cursorOf p) evs)"
    by (rule Cons.IH) (use Cons.prems in simp_all)
  have step: "drainStep p ev cs =
      (Completed, case cursorOf p ev of None \<Rightarrow> cs | Some c \<Rightarrow> cs @ [c])"
    by (rule drainStep_delivery) (use Cons.prems in simp_all)
  show ?case
    using Cons.prems(1) ih step
    by (cases "cursorOf p ev")
       (simp_all add: drainLoop_Cons map_filter_Cons_Some map_filter_Cons_None
          replicate_append_same [symmetric])
qed

lemma drainLoop_throws:
  assumes "pending ars = pre @ NextThrows ex # post"
    and "list_all isDelivery pre" and "list_all hostPresent pre"
  shows "drainLoop p ars cs =
     (Threw ex, ars\<lparr>pending := post, calls := calls ars @ replicate (Suc (length pre)) CallNext\<rparr>,
      cs @ List.map_filter (cursorOf p) pre)"
  using assms
proof (induction pre arbitrary: ars cs)
  case Nil
  then show ?case
    by (simp add: drainLoop_Cons drainStep_def)
next
  case (Cons e pre)
  let ?ars = "ars\<lparr>pending := pre @ NextThrows ex # post, calls := calls ars @ [CallNext]\<rparr>"
  have ih: "\<And>cs'. drainLoop p ?ars cs' =
      (Threw ex, ?ars\<lparr>pending := post, calls := calls ?ars @ replicate (Suc (length pre)) CallNext\<rparr>,
       cs' @ List.map_filter (cursorOf p) pre)"
    by (rule Cons.IH) (use Cons.prems in simp_all)
  have p: "pending ars = e # (pre @ NextThrows ex # post)"
    using Cons.prems(1) by simp
  have step: "drainStep p e cs =
      (Completed, case cursorOf p e of None \<Rightarrow> cs | Some c \<Rightarrow> cs @ [c])"
    by (rule drainStep_delivery) (use Cons.prems in simp_all)
  show ?case
    using ih step
    by (cases "cursorOf p e")
       (simp_all add: drainLoop_Cons [OF p] map_filter_Cons_Some map_filter_Cons_None
          replicate_append_same [symmetric])
qed

text \<open>Under the precondition neither loop dereferences an empty optional.\<close>

lemma collectStep_no_deref:
  "hostPresent ev \<Longrightarrow> fst (collectStep p k a ev cs) \<noteq> DerefNone"
  by (auto simp: collectStep_def collectBody_def hostPresent_def
      split: Event.splits sum.splits option.splits)

lemma drainStep_no_deref:
  "hostPresent ev \<Longrightarrow> fst (drainStep p ev cs) \<noteq> DerefNone"
  by (auto simp: drainStep_def hostPresent_def split: Event.splits sum.splits option.splits)

lemma collectLoop_no_deref:
  "pending ars = evs \<Longrightarrow> list_all hostPresent evs \<Longrightarrow>
   fst (collectLoop p k a ars cs) \<noteq> DerefNone"
proof (induction evs arbitrary: ars cs)
  case Nil
  then show ?case by (simp add: collectLoop_Nil)
next
  case (Cons ev evs)
  let ?ars = "ars\<lparr>pending := evs, calls := calls ars @ [CallNext]\<rparr>"
  have ih: "\<And>cs'. fst (collectLoop p k a ?ars cs') \<noteq> DerefNone"
    by (rule Cons.IH) (use Cons.prems in simp_all)
  have "fst (collectStep p k a ev cs) \<noteq> DerefNone"
    by (rule collectStep_no_deref) (use Cons.prems in simp)
  then show ?case
    using Cons.prems(1) ih
    by (cases "collectStep p k a ev cs"; cases "fst (collectStep p k a ev cs)")
       (simp_all add: collectLoop_Cons)
qed

lemma drainLoop_no_deref:
  "pending ars = evs \<Longrightarrow> list_all hostPresent evs \<Longrightarrow>
   fst (drainLoop p ars cs) \<noteq> DerefNone"
proof (induction evs arbitrary: ars cs)
  case Nil
  then show ?case by (simp add: drainLoop_Nil)
next
  case (Cons ev evs)
  let ?ars = "ars\<lparr>pending := evs, calls := calls ars @ [CallNext]\<rparr>"
  have ih: "\<And>cs'. fst (drainLoop p ?ars cs') \<noteq> DerefNone"
    by (rule Cons.IH) (use Cons.prems in simp_all)
  have "fst (drainStep p ev cs) \<noteq> DerefNone"
    by (rule drainStep_no_deref) (use Cons.prems in simp)
  then show ?case
    using Cons.prems(1) ih
    by (cases "drainStep p ev cs"; cases "fst (drainStep p ev cs)")
       (simp_all add: drainLoop_Cons)
qed

text \<open>The loop over the cursors.\<close>

lemma killLoop_prefix:
  "\<exists>n \<le> length cs. snd (killLoop executor submitted ns cs) =
      submitted @ map (killRequest ns) (take n cs)"
proof (induction cs arbitrary: submitted)
  case Nil
  then show ?case by simp
next
  case (Cons c cs)
  show ?case
  proof (cases "executor submitted (killRequest ns c)")
    case (ScheduleThrows ex)
    then have "snd (killLoop executor submitted ns (c # cs)) =
        submitted @ map (killRequest ns) (take (Suc 0) (c # cs))"
      by simp
    then show ?thesis by (metis Suc_leI length_Cons zero_less_Suc)
  next
    case Scheduled
    from Cons.IH [of "submitted @ [killRequest ns c]"] obtain n where
      n: "n \<le> length cs" "snd (killLoop executor (submitted @ [killRequest ns c]) ns cs) =
        (submitted @ [killRequest ns c]) @ map (killRequest ns) (take n cs)"
      by blast
    with Scheduled have "snd (killLoop executor submitted ns (c # cs)) =
        submitted @ map (killRequest ns) (take (Suc n) (c # cs))"
      by simp
    with n(1) show ?thesis by (metis Suc_le_mono length_Cons)
  next
    case (Rejected st)
    from Cons.IH [of "submitted @ [killRequest ns c]"] obtain n where
      n: "n \<le> length cs" "snd (killLoop executor (submitted @ [killRequest ns c]) ns cs) =
        (submitted @ [killRequest ns c]) @ map (killRequest ns) (take n cs)"
      by blast
    with Rejected have "snd (killLoop executor submitted ns (c # cs)) =
        submitted @ map (killRequest ns) (take (Suc n) (c # cs))"
      by simp
    with n(1) show ?thesis by (metis Suc_le_mono length_Cons)
  qed
qed

lemma killLoop_all:
  "neverThrows executor \<Longrightarrow>
   killLoop executor submitted ns cs = (Completed, submitted @ map (killRequest ns) cs)"
proof (induction cs arbitrary: submitted)
  case Nil
  then show ?case by simp
next
  case (Cons c cs)
  then show ?case
    by (cases "executor submitted (killRequest ns c)") (auto simp: neverThrows_def)
qed

section \<open>Whole runs\<close>

lemma parsed_failure: "(parsed p ev = None) = (failure p ev \<noteq> None)"
  by (auto simp: parsed_def failure_def split: Event.splits sum.splits)

lemma opensCursor_cursorOf: "opensCursor p ev = (cursorOf p ev \<noteq> None)"
  by (auto simp: opensCursor_def parsed_def cursorOf_def hostPresent_def
      split: Event.splits sum.splits option.splits)

lemma opensCursor_benign: "opensCursor p ev \<Longrightarrow> benign p k a ev"
  by (auto simp: opensCursor_def benign_def parsed_failure split: option.splits)

lemma opensCursor_all_benign:
  "list_all (opensCursor p) evs \<Longrightarrow> list_all (benign p k a) evs"
  by (induction evs) (simp_all add: opensCursor_benign)

lemma cursorOf_shardIds:
  "list_all (opensCursor p) evs \<Longrightarrow>
   map cursorShardId (List.map_filter (cursorOf p) evs) = deliveredShardIds evs"
proof (induction evs)
  case Nil
  then show ?case by (simp add: deliveredShardIds_def)
next
  case (Cons ev evs)
  then obtain c where c: "cursorOf p ev = Some c"
    by (auto simp: opensCursor_cursorOf)
  then obtain r where r: "ev = Delivers r" "cursorShardId c = shardId r"
    by (auto simp: cursorOf_def split: Event.splits option.splits)
  from Cons c r show ?case
    by (simp add: deliveredShardIds_def)
qed

lemma cursorOf_all:
  "list_all (opensCursor p) evs \<Longrightarrow>
   map Some (List.map_filter (cursorOf p) evs) = map (cursorOf p) evs"
  by (induction evs) (auto simp: opensCursor_cursorOf)

lemma deliveredShardIds_append:
  "deliveredShardIds (xs @ ys) = deliveredShardIds xs @ deliveredShardIds ys"
  by (simp add: deliveredShardIds_def map_filter_append)

lemma establishCursors_benign:
  "list_all (benign p k a) schedule \<Longrightarrow>
   establishCursors p k executor schedule ns remotes a =
     \<lparr>outcome = Returns (List.map_filter (cursorOf p) schedule),
      sender = \<lparr>requests = remotes, pending = [],
                calls = replicate (length schedule) CallNext\<rparr>,
      established = List.map_filter (cursorOf p) schedule, submittedKills = []\<rparr>"
  by (simp add: establishCursors_def AsyncRequestsSender_def collectLoop_benign)

lemma establishCursors_fatal:
  "list_all (benign p k a) pre \<Longrightarrow> failure p ev = Some st \<Longrightarrow> \<not> swallowed k a st \<Longrightarrow>
   establishCursors p k executor (pre @ ev # post) ns remotes a =
     fatalPath p executor ns st
       \<lparr>requests = remotes, pending = post, calls = replicate (Suc (length pre)) CallNext\<rparr>
       (List.map_filter (cursorOf p) pre)"
  by (simp add: establishCursors_def AsyncRequestsSender_def
      collectLoop_fatal [where pre = pre and ev = ev and post = post and st = st])

text \<open>The handler, by what the drain meets.\<close>

lemma fatalPath_deliveries:
  assumes "pending ars = post" and "list_all isDelivery post" and "list_all hostPresent post"
  shows "fatalPath p executor ns ex ars cs =
     \<lparr>outcome = Raises ex,
      sender = ars\<lparr>pending := [],
                  calls := calls ars @ CallStopRetrying # replicate (length post) CallNext\<rparr>,
      established = cs @ List.map_filter (cursorOf p) post,
      submittedKills = snd (killLoop executor [] ns (cs @ List.map_filter (cursorOf p) post))\<rparr>"
proof -
  have "drainLoop p (stopRetrying ars) cs =
      (Completed,
       (stopRetrying ars)\<lparr>pending := [],
          calls := calls (stopRetrying ars) @ replicate (length post) CallNext\<rparr>,
       cs @ List.map_filter (cursorOf p) post)"
    by (rule drainLoop_deliveries) (use assms in \<open>simp_all add: stopRetrying_def\<close>)
  then show ?thesis
    by (simp add: fatalPath_def stopRetrying_def split: prod.splits)
qed

lemma fatalPath_throws:
  assumes "pending ars = pre @ NextThrows ex' # post"
    and "list_all isDelivery pre" and "list_all hostPresent pre"
  shows "fatalPath p executor ns ex ars cs =
     \<lparr>outcome = Raises ex,
      sender = ars\<lparr>pending := post,
                  calls := calls ars @ CallStopRetrying # replicate (Suc (length pre)) CallNext\<rparr>,
      established = cs @ List.map_filter (cursorOf p) pre,
      submittedKills = []\<rparr>"
proof -
  have "drainLoop p (stopRetrying ars) cs =
      (Threw ex',
       (stopRetrying ars)\<lparr>pending := post,
          calls := calls (stopRetrying ars) @ replicate (Suc (length pre)) CallNext\<rparr>,
       cs @ List.map_filter (cursorOf p) pre)"
    by (rule drainLoop_throws) (use assms in \<open>simp_all add: stopRetrying_def\<close>)
  then show ?thesis
    by (simp add: fatalPath_def stopRetrying_def)
qed

lemma first_throw:
  "\<not> list_all isDelivery evs \<Longrightarrow>
   \<exists>pre ex post. evs = pre @ NextThrows ex # post \<and> list_all isDelivery pre"
proof -
  assume "\<not> list_all isDelivery evs"
  then have "\<exists>e \<in> set evs. \<not> isDelivery e"
    by (simp add: list_all_iff)
  from split_list_first_prop [OF this] obtain pre e post where
    e: "evs = pre @ e # post" "\<not> isDelivery e" "\<forall>y \<in> set pre. \<not> \<not> isDelivery y"
    by blast
  from e(2) obtain ex where "e = NextThrows ex"
    by (cases e) (simp_all add: isDelivery_def)
  with e show ?thesis
    by (auto simp: list_all_iff)
qed

lemma killLoop_take:
  "snd (killLoop executor [] ns cs) =
     map (killRequest ns) (take (length (snd (killLoop executor [] ns cs))) cs)"
proof -
  from killLoop_prefix [of cs executor "[]" ns] obtain n where
    n: "n \<le> length cs" "snd (killLoop executor [] ns cs) = map (killRequest ns) (take n cs)"
    by auto
  then have "length (snd (killLoop executor [] ns cs)) = n"
    by simp
  with n(2) show ?thesis
    by simp
qed

lemma fatalPath_general:
  assumes "pending ars = post" and "list_all hostPresent post"
  shows "\<exists>m \<le> length post.
     outcome (fatalPath p executor ns ex ars cs) = Raises ex
     \<and> sender (fatalPath p executor ns ex ars cs) =
         ars\<lparr>pending := drop m post,
             calls := calls ars @ CallStopRetrying # replicate m CallNext\<rparr>
     \<and> established (fatalPath p executor ns ex ars cs) =
         cs @ List.map_filter (cursorOf p) (take m post)
     \<and> (list_all isDelivery post \<longrightarrow> m = length post)
     \<and> submittedKills (fatalPath p executor ns ex ars cs) =
         map (killRequest ns)
           (take (length (submittedKills (fatalPath p executor ns ex ars cs)))
              (established (fatalPath p executor ns ex ars cs)))"
proof (cases "list_all isDelivery post")
  case True
  note fp = fatalPath_deliveries [OF assms(1) True assms(2), of p executor ns ex cs]
  from fp True killLoop_take [of executor ns "cs @ List.map_filter (cursorOf p) post"]
  show ?thesis
    by (intro exI [of _ "length post"]) simp
next
  case False
  from first_throw [OF False] obtain pre ex' rest where
    s: "post = pre @ NextThrows ex' # rest" "list_all isDelivery pre"
    by blast
  have h: "list_all hostPresent pre"
    using assms(2) s(1) by simp
  have pend: "pending ars = pre @ NextThrows ex' # rest"
    using assms(1) s(1) by simp
  note fp = fatalPath_throws [OF pend s(2) h, of p executor ns ex cs]
  have c: "cursorOf p (NextThrows ex') = None"
    by (simp add: cursorOf_def)
  have "List.map_filter (cursorOf p) (take (Suc (length pre)) post) =
      List.map_filter (cursorOf p) pre"
    using s(1) c by (simp add: map_filter_append)
  with fp False s(1) show ?thesis
    by (intro exI [of _ "Suc (length pre)"]) (simp add: isDelivery_def)
qed

lemma fatalPath_raises:
  assumes "pending ars = post" and "list_all hostPresent post"
  shows "outcome (fatalPath p executor ns ex ars cs) = Raises ex"
  using fatalPath_general [OF assms, of p executor ns ex cs] by blast

lemma establishCursors_executor:
  "neverThrows e1 \<Longrightarrow> neverThrows e2 \<Longrightarrow>
   establishCursors p k e1 schedule ns remotes a = establishCursors p k e2 schedule ns remotes a"
  by (simp add: establishCursors_def fatalPath_def killLoop_all
      split: prod.splits Signal.splits)

lemma neverThrows_acceptAll: "neverThrows acceptAll"
  by (simp add: neverThrows_def acceptAll_def)

lemma neverThrows_rejectAll: "neverThrows rejectAll"
  by (simp add: neverThrows_def rejectAll_def)

lemma establishCursors_fatal_general:
  assumes "list_all (benign p k a) pre" and "failure p ev = Some ex"
    and "\<not> swallowed k a ex" and "list_all hostPresent post"
  shows "\<exists>m \<le> length post.
     outcome (establishCursors p k executor (pre @ ev # post) ns remotes a) = Raises ex
     \<and> sender (establishCursors p k executor (pre @ ev # post) ns remotes a) =
         \<lparr>requests = remotes, pending = drop m post,
          calls = replicate (Suc (length pre)) CallNext @ CallStopRetrying #
                  replicate m CallNext\<rparr>
     \<and> established (establishCursors p k executor (pre @ ev # post) ns remotes a) =
         List.map_filter (cursorOf p) pre @ List.map_filter (cursorOf p) (take m post)
     \<and> (list_all isDelivery post \<longrightarrow> m = length post)
     \<and> submittedKills (establishCursors p k executor (pre @ ev # post) ns remotes a) =
         map (killRequest ns)
           (take (length (submittedKills
                    (establishCursors p k executor (pre @ ev # post) ns remotes a)))
              (established (establishCursors p k executor (pre @ ev # post) ns remotes a)))"
proof -
  let ?ars = "\<lparr>requests = remotes, pending = post,
      calls = replicate (Suc (length pre)) CallNext\<rparr>"
  have run: "establishCursors p k executor (pre @ ev # post) ns remotes a =
      fatalPath p executor ns ex ?ars (List.map_filter (cursorOf p) pre)"
    by (rule establishCursors_fatal [OF assms(1,2,3)])
  have pend: "pending ?ars = post"
    by simp
  from fatalPath_general [OF pend assms(4), of p executor ns ex
      "List.map_filter (cursorOf p) pre"]
  show ?thesis
    unfolding run by simp
qed

lemma establishCursors_fatal_kills:
  assumes "list_all (benign p k a) pre" and "failure p ev = Some ex"
    and "\<not> swallowed k a ex" and "list_all hostPresent post"
    and "list_all isDelivery post" and "neverThrows executor"
  shows "establishCursors p k executor (pre @ ev # post) ns remotes a =
     \<lparr>outcome = Raises ex,
      sender = \<lparr>requests = remotes, pending = [],
                calls = replicate (Suc (length pre)) CallNext @ CallStopRetrying #
                        replicate (length post) CallNext\<rparr>,
      established = List.map_filter (cursorOf p) pre @ List.map_filter (cursorOf p) post,
      submittedKills =
        map (killRequest ns)
          (List.map_filter (cursorOf p) pre @ List.map_filter (cursorOf p) post)\<rparr>"
proof -
  let ?ars = "\<lparr>requests = remotes, pending = post,
      calls = replicate (Suc (length pre)) CallNext\<rparr>"
  have run: "establishCursors p k executor (pre @ ev # post) ns remotes a =
      fatalPath p executor ns ex ?ars (List.map_filter (cursorOf p) pre)"
    by (rule establishCursors_fatal [OF assms(1,2,3)])
  have pend: "pending ?ars = post"
    by simp
  show ?thesis
    unfolding run fatalPath_deliveries [OF pend assms(5) assms(4)]
    by (simp add: killLoop_all [OF assms(6)])
qed

lemma deliveredShardIds_Cons_delivery:
  "isDelivery ev \<Longrightarrow> \<exists>s. deliveredShardIds (ev # evs) = s # deliveredShardIds evs"
  by (cases ev) (simp_all add: isDelivery_def deliveredShardIds_def)

lemma drainFetches_deliveries: "list_all isDelivery evs \<Longrightarrow> drainFetches evs = length evs"
proof -
  assume "list_all isDelivery evs"
  then have tw: "takeWhile isDelivery evs = evs"
    by (simp add: list_all_iff)
  show ?thesis
    unfolding drainFetches_def tw by simp
qed

lemma drainFetches_throws:
  "list_all isDelivery pre \<Longrightarrow> drainFetches (pre @ NextThrows ex # post) = Suc (length pre)"
proof -
  assume "list_all isDelivery pre"
  then have tw: "takeWhile isDelivery (pre @ NextThrows ex # post) = pre"
    by (simp add: list_all_iff isDelivery_def)
  show ?thesis
    unfolding drainFetches_def tw by simp
qed

lemma fatalPath_pinned:
  assumes "pending ars = post" and "list_all hostPresent post"
  shows "fatalPath p executor ns ex ars cs =
     \<lparr>outcome = Raises ex,
      sender = ars\<lparr>pending := drop (drainFetches post) post,
                  calls := calls ars @ CallStopRetrying #
                           replicate (drainFetches post) CallNext\<rparr>,
      established = cs @ List.map_filter (cursorOf p) (take (drainFetches post) post),
      submittedKills =
        (if list_all isDelivery post
         then snd (killLoop executor [] ns (cs @ List.map_filter (cursorOf p) post))
         else [])\<rparr>"
proof (cases "list_all isDelivery post")
  case True
  show ?thesis
    using fatalPath_deliveries [OF assms(1) True assms(2), of p executor ns ex cs] True
    by (simp add: drainFetches_deliveries)
next
  case False
  from first_throw [OF False] obtain pre ex' rest where
    s: "post = pre @ NextThrows ex' # rest" "list_all isDelivery pre"
    by blast
  have h: "list_all hostPresent pre"
    using assms(2) s(1) by simp
  have pend: "pending ars = pre @ NextThrows ex' # rest"
    using assms(1) s(1) by simp
  have c: "cursorOf p (NextThrows ex') = None"
    by (simp add: cursorOf_def)
  have m: "drainFetches post = Suc (length pre)"
    unfolding s(1) by (rule drainFetches_throws [OF s(2)])
  have t: "List.map_filter (cursorOf p) (take (Suc (length pre)) post) =
      List.map_filter (cursorOf p) pre"
    using s(1) c by (simp add: map_filter_append)
  have d: "drop (Suc (length pre)) post = rest"
    using s(1) by simp
  show ?thesis
    using fatalPath_throws [OF pend s(2) h, of p executor ns ex cs] False
    by (simp add: m t d)
qed

lemma establishCursors_fatal_pinned:
  assumes "list_all (benign p k a) pre" and "failure p ev = Some ex"
    and "\<not> swallowed k a ex" and "list_all hostPresent post"
  shows "establishCursors p k executor (pre @ ev # post) ns remotes a =
     \<lparr>outcome = Raises ex,
      sender = \<lparr>requests = remotes, pending = drop (drainFetches post) post,
                calls = replicate (Suc (length pre)) CallNext @ CallStopRetrying #
                        replicate (drainFetches post) CallNext\<rparr>,
      established = List.map_filter (cursorOf p) pre @
                    List.map_filter (cursorOf p) (take (drainFetches post) post),
      submittedKills =
        (if list_all isDelivery post
         then snd (killLoop executor [] ns
                (List.map_filter (cursorOf p) pre @ List.map_filter (cursorOf p) post))
         else [])\<rparr>"
proof -
  let ?ars = "\<lparr>requests = remotes, pending = post,
      calls = replicate (Suc (length pre)) CallNext\<rparr>"
  have run: "establishCursors p k executor (pre @ ev # post) ns remotes a =
      fatalPath p executor ns ex ?ars (List.map_filter (cursorOf p) pre)"
    by (rule establishCursors_fatal [OF assms(1,2,3)])
  have pend: "pending ?ars = post"
    by simp
  show ?thesis
    unfolding run fatalPath_pinned [OF pend assms(4)] by simp
qed

lemma establishCursors_fatal_observed:
  assumes "list_all (benign p k a) pre" and "failure p ev = Some ex"
    and "\<not> swallowed k a ex" and "list_all hostPresent post"
  shows "outcome (establishCursors p k executor (pre @ ev # post) ns remotes a) = Raises ex"
    and "sender (establishCursors p k executor (pre @ ev # post) ns remotes a) =
       \<lparr>requests = remotes, pending = drop (drainFetches post) post,
        calls = replicate (Suc (length pre)) CallNext @ CallStopRetrying #
                replicate (drainFetches post) CallNext\<rparr>"
    and "established (establishCursors p k executor (pre @ ev # post) ns remotes a) =
       List.map_filter (cursorOf p) pre @
       List.map_filter (cursorOf p) (take (drainFetches post) post)"
    and "submittedKills (establishCursors p k executor (pre @ ev # post) ns remotes a) =
       (if list_all isDelivery post
        then if neverThrows executor
             then map (killRequest ns)
                    (established (establishCursors p k executor (pre @ ev # post) ns remotes a))
             else map (killRequest ns)
                    (take (length (submittedKills
                             (establishCursors p k executor (pre @ ev # post) ns remotes a)))
                       (established
                          (establishCursors p k executor (pre @ ev # post) ns remotes a)))
        else [])"
proof -
  note run = establishCursors_fatal_pinned [OF assms, of executor ns remotes]
  show "outcome (establishCursors p k executor (pre @ ev # post) ns remotes a) = Raises ex"
    unfolding run by simp
  show "sender (establishCursors p k executor (pre @ ev # post) ns remotes a) =
       \<lparr>requests = remotes, pending = drop (drainFetches post) post,
        calls = replicate (Suc (length pre)) CallNext @ CallStopRetrying #
                replicate (drainFetches post) CallNext\<rparr>"
    unfolding run by simp
  show "established (establishCursors p k executor (pre @ ev # post) ns remotes a) =
       List.map_filter (cursorOf p) pre @
       List.map_filter (cursorOf p) (take (drainFetches post) post)"
    unfolding run by simp
  show "submittedKills (establishCursors p k executor (pre @ ev # post) ns remotes a) =
       (if list_all isDelivery post
        then if neverThrows executor
             then map (killRequest ns)
                    (established (establishCursors p k executor (pre @ ev # post) ns remotes a))
             else map (killRequest ns)
                    (take (length (submittedKills
                             (establishCursors p k executor (pre @ ev # post) ns remotes a)))
                       (established
                          (establishCursors p k executor (pre @ ev # post) ns remotes a)))
        else [])"
  proof (cases "list_all isDelivery post")
    case False
    then show ?thesis unfolding run by simp
  next
    case True
    show ?thesis
    proof (cases "neverThrows executor")
      case nt: True
      show ?thesis
        unfolding run using True nt
        by (simp add: killLoop_all [OF nt] drainFetches_deliveries)
    next
      case nt: False
      from establishCursors_fatal_general [OF assms, of executor ns remotes]
      have "submittedKills (establishCursors p k executor (pre @ ev # post) ns remotes a) =
         map (killRequest ns)
           (take (length (submittedKills
                    (establishCursors p k executor (pre @ ev # post) ns remotes a)))
              (established (establishCursors p k executor (pre @ ev # post) ns remotes a)))"
        by blast
      with True nt show ?thesis by simp
    qed
  qed
qed

section \<open>The properties\<close>

text \<open>C1. When every completion is a successfully parsed cursor response, the call returns
  one cursor per target: the cursors are those of the responses, in arrival order, their shards
  are the shards of the targets, and nothing is killed.\<close>

theorem establishCursors_all_succeed:
  assumes "list_all (opensCursor p) schedule"
    and "mset (deliveredShardIds schedule) = mset (map fst remotes)"
  shows "outcome (establishCursors p k executor schedule ns remotes a) =
           Returns (List.map_filter (cursorOf p) schedule)
         \<and> map Some (List.map_filter (cursorOf p) schedule) = map (cursorOf p) schedule
         \<and> length (List.map_filter (cursorOf p) schedule) = length remotes
         \<and> mset (map cursorShardId (List.map_filter (cursorOf p) schedule)) =
             mset (map fst remotes)
         \<and> submittedKills (establishCursors p k executor schedule ns remotes a) = []"
proof -
  note run = establishCursors_benign [OF opensCursor_all_benign [OF assms(1)]]
  have ids: "map cursorShardId (List.map_filter (cursorOf p) schedule) =
      deliveredShardIds schedule"
    by (rule cursorOf_shardIds [OF assms(1)])
  have "length (List.map_filter (cursorOf p) schedule) = length (deliveredShardIds schedule)"
    using ids by (metis length_map)
  also have "\<dots> = length remotes"
    using assms(2) by (metis length_map size_mset)
  finally have len: "length (List.map_filter (cursorOf p) schedule) = length remotes" .
  show ?thesis
    using run cursorOf_all [OF assms(1)] len ids assms(2) by simp
qed

theorem establishCursors_all_succeed_witness:
  "list_all (opensCursor parseDoc)
     [opened ''shard2'' ''host2'' ''coll'' 202, opened ''shard3'' ''host3'' ''coll'' 303,
      opened ''shard1'' ''host1'' ''coll'' 101]
   \<and> mset (deliveredShardIds
       [opened ''shard2'' ''host2'' ''coll'' 202, opened ''shard3'' ''host3'' ''coll'' 303,
        opened ''shard1'' ''host1'' ''coll'' 101]) = mset (map fst threeShards)
   \<and> outcome (establishCursors parseDoc retriable acceptAll
       [opened ''shard2'' ''host2'' ''coll'' 202, opened ''shard3'' ''host3'' ''coll'' 303,
        opened ''shard1'' ''host1'' ''coll'' 101] testColl threeShards False) =
     Returns [cursorAt ''shard2'' ''host2'' ''coll'' 202, cursorAt ''shard3'' ''host3'' ''coll'' 303,
              cursorAt ''shard1'' ''host1'' ''coll'' 101]"
proof -
  let ?s = "[opened ''shard2'' ''host2'' ''coll'' 202, opened ''shard3'' ''host3'' ''coll'' 303,
        opened ''shard1'' ''host1'' ''coll'' 101]"
  have 1: "list_all (opensCursor parseDoc) ?s"
    by (simp add: opened_def opensCursor_def parsed_def hostPresent_def)
  have 2: "mset (deliveredShardIds ?s) = mset (map fst threeShards)"
    by (simp add: opened_def deliveredShardIds_def threeShards_def)
  show ?thesis
    using 1 2 establishCursors_all_succeed [OF 1 2, of retriable acceptAll testColl False]
    by (simp add: opened_def cursorOf_def parsed_def cursorAt_def)
qed

text \<open>C2. When a fatal failure is observed, the call raises the first one, whatever the later
  completions carry, whatever \<open>next\<close> throws while the sender is drained and whatever the
  executor returns or throws while the cursors are killed.\<close>

theorem first_fatal_error_is_raised:
  assumes "list_all hostPresent schedule"
    and "firstFatal p k a schedule = Some ex"
  shows "outcome (establishCursors p k executor schedule ns remotes a) = Raises ex"
proof -
  from firstFatal_Some [OF assms] obtain pre ev post where
    s: "schedule = pre @ ev # post" and pre: "list_all (benign p k a) pre"
    and ev: "failure p ev = Some ex" "\<not> swallowed k a ex"
    by blast
  have "list_all hostPresent post"
    using assms(1) s by simp
  then have "outcome (fatalPath p executor ns ex
      \<lparr>requests = remotes, pending = post, calls = replicate (Suc (length pre)) CallNext\<rparr>
      (List.map_filter (cursorOf p) pre)) = Raises ex"
    by (intro fatalPath_raises [where post = post]) simp_all
  then show ?thesis
    using establishCursors_fatal [OF pre ev] s by simp
qed

theorem first_fatal_error_is_raised_witness:
  "list_all hostPresent
     [opened ''shard1'' ''host1'' ''coll'' 101, repliedError ''shard2'' ''host2'' 26,
      NextThrows interrupted, timedOut ''shard3'']
   \<and> firstFatal parseDoc retriable True
       [opened ''shard1'' ''host1'' ''coll'' 101, repliedError ''shard2'' ''host2'' 26,
        NextThrows interrupted, timedOut ''shard3''] = Some namespaceNotFound
   \<and> outcome (establishCursors parseDoc retriable throwAll
       [opened ''shard1'' ''host1'' ''coll'' 101, repliedError ''shard2'' ''host2'' 26,
        NextThrows interrupted, timedOut ''shard3''] testColl threeShards True) =
     Raises namespaceNotFound"
proof -
  let ?s = "[opened ''shard1'' ''host1'' ''coll'' 101, repliedError ''shard2'' ''host2'' 26,
      NextThrows interrupted, timedOut ''shard3'']"
  have 1: "list_all hostPresent ?s"
    by (simp add: opened_def repliedError_def timedOut_def hostPresent_def)
  have 2: "firstFatal parseDoc retriable True ?s = Some namespaceNotFound"
    by (simp add: opened_def repliedError_def failure_def swallowed_def retriable_def
        namespaceNotFound_def)
  show ?thesis
    using 1 2 first_fatal_error_is_raised [OF 1 2, of throwAll testColl threeShards] by simp
qed

text \<open>C3, as amended. On the fatal path the requests submitted are those of an initial
  segment of the cursors gathered, one each and in order, so no cursor is killed twice; and
  when neither \<open>next\<close> nor the executor throws while the handler runs, every cursor gathered,
  before the failure or in the drain, gets its request before the failure is rethrown.\<close>

theorem kill_attempts_on_fatal_path:
  assumes "list_all (benign p k a) pre" and "failure p ev = Some ex"
    and "\<not> swallowed k a ex" and "list_all hostPresent post"
  shows "outcome (establishCursors p k executor (pre @ ev # post) ns remotes a) = Raises ex
     \<and> submittedKills (establishCursors p k executor (pre @ ev # post) ns remotes a) =
         map (killRequest ns)
           (take (length (submittedKills
                    (establishCursors p k executor (pre @ ev # post) ns remotes a)))
              (established (establishCursors p k executor (pre @ ev # post) ns remotes a)))
     \<and> (list_all isDelivery post \<and> neverThrows executor \<longrightarrow>
          established (establishCursors p k executor (pre @ ev # post) ns remotes a) =
            List.map_filter (cursorOf p) pre @ List.map_filter (cursorOf p) post
          \<and> submittedKills (establishCursors p k executor (pre @ ev # post) ns remotes a) =
              map (killRequest ns)
                (established (establishCursors p k executor (pre @ ev # post) ns remotes a)))"
proof -
  from establishCursors_fatal_general [OF assms, of executor ns remotes]
  have 1: "outcome (establishCursors p k executor (pre @ ev # post) ns remotes a) = Raises ex"
    and 2: "submittedKills (establishCursors p k executor (pre @ ev # post) ns remotes a) =
         map (killRequest ns)
           (take (length (submittedKills
                    (establishCursors p k executor (pre @ ev # post) ns remotes a)))
              (established (establishCursors p k executor (pre @ ev # post) ns remotes a)))"
    by blast+
  have 3: "list_all isDelivery post \<and> neverThrows executor \<longrightarrow>
          established (establishCursors p k executor (pre @ ev # post) ns remotes a) =
            List.map_filter (cursorOf p) pre @ List.map_filter (cursorOf p) post
          \<and> submittedKills (establishCursors p k executor (pre @ ev # post) ns remotes a) =
              map (killRequest ns)
                (established (establishCursors p k executor (pre @ ev # post) ns remotes a))"
    using establishCursors_fatal_kills [OF assms, of executor ns remotes] by simp
  from 1 2 3 show ?thesis by blast
qed

theorem kill_attempts_on_fatal_path_witness:
  "list_all (benign parseDoc retriable False) [opened ''shard1'' ''host1'' ''coll'' 101]
   \<and> failure parseDoc (repliedError ''shard2'' ''host2'' 26) = Some namespaceNotFound
   \<and> \<not> swallowed retriable False namespaceNotFound
   \<and> list_all hostPresent [opened ''shard3'' ''host3'' ''coll'' 303]
   \<and> list_all isDelivery [opened ''shard3'' ''host3'' ''coll'' 303]
   \<and> neverThrows rejectAll
   \<and> outcome (establishCursors parseDoc retriable rejectAll
        ([opened ''shard1'' ''host1'' ''coll'' 101] @ repliedError ''shard2'' ''host2'' 26 #
         [opened ''shard3'' ''host3'' ''coll'' 303]) testColl threeShards False) =
      Raises namespaceNotFound
   \<and> submittedKills (establishCursors parseDoc retriable rejectAll
        ([opened ''shard1'' ''host1'' ''coll'' 101] @ repliedError ''shard2'' ''host2'' 26 #
         [opened ''shard3'' ''host3'' ''coll'' 303]) testColl threeShards False) =
      [killRequest testColl (cursorAt ''shard1'' ''host1'' ''coll'' 101),
       killRequest testColl (cursorAt ''shard3'' ''host3'' ''coll'' 303)]"
proof -
  have 1: "list_all (benign parseDoc retriable False) [opened ''shard1'' ''host1'' ''coll'' 101]"
    by (simp add: benign_def failure_def opened_def hostPresent_def)
  have 2: "failure parseDoc (repliedError ''shard2'' ''host2'' 26) = Some namespaceNotFound"
    by (simp add: failure_def repliedError_def namespaceNotFound_def)
  have 3: "\<not> swallowed retriable False namespaceNotFound"
    by (simp add: swallowed_def)
  have 4: "list_all hostPresent [opened ''shard3'' ''host3'' ''coll'' 303]"
    by (simp add: opened_def hostPresent_def)
  have 5: "list_all isDelivery [opened ''shard3'' ''host3'' ''coll'' 303]"
    by (simp add: opened_def isDelivery_def)
  show ?thesis
    using 1 2 3 4 5 neverThrows_rejectAll
      kill_attempts_on_fatal_path [OF 1 2 3 4, of rejectAll testColl threeShards]
    by (simp add: cursorOf_def parsed_def opened_def cursorAt_def)
qed

text \<open>The claim C3 as stated fails when the executor throws on the first request: two cursors
  are open, the second one is never killed.\<close>

theorem kill_attempts_counterexample:
  "outcome (establishCursors parseDoc retriable throwAll
      [opened ''shard1'' ''host1'' ''coll'' 101, opened ''shard3'' ''host3'' ''coll'' 303,
       repliedError ''shard2'' ''host2'' 26] testColl threeShards False) =
     Raises namespaceNotFound
   \<and> established (establishCursors parseDoc retriable throwAll
      [opened ''shard1'' ''host1'' ''coll'' 101, opened ''shard3'' ''host3'' ''coll'' 303,
       repliedError ''shard2'' ''host2'' 26] testColl threeShards False) =
     [cursorAt ''shard1'' ''host1'' ''coll'' 101, cursorAt ''shard3'' ''host3'' ''coll'' 303]
   \<and> submittedKills (establishCursors parseDoc retriable throwAll
      [opened ''shard1'' ''host1'' ''coll'' 101, opened ''shard3'' ''host3'' ''coll'' 303,
       repliedError ''shard2'' ''host2'' 26] testColl threeShards False) =
     [killRequest testColl (cursorAt ''shard1'' ''host1'' ''coll'' 101)]"
  by (simp add: establishCursors_def AsyncRequestsSender_def collectLoop_Cons collectLoop_Nil
      drainLoop_Nil collectStep_def collectBody_def opened_def repliedError_def fatalPath_def
      stopRetrying_def throwAll_def cursorAt_def namespaceNotFound_def retriable_def)

text \<open>C4. With \<open>allowPartialResults\<close> a completion that fails with a retriable code is dropped
  and the loop goes on. When one target of N fails so and the others open their cursors, the
  call returns the N - 1 cursors of the others, raises nothing, kills nothing, and no shard
  occurs twice among the cursors.\<close>

theorem one_retriable_failure_is_skipped:
  assumes "list_all (opensCursor p) pre" and "list_all (opensCursor p) post"
    and "isDelivery ev" and "failure p ev = Some st" and "code st \<in> set k"
    and "mset (deliveredShardIds (pre @ ev # post)) = mset (map fst remotes)"
    and "distinct (map fst remotes)"
  shows "collectStep p k True ev cs = (Completed, cs)
     \<and> outcome (establishCursors p k executor (pre @ ev # post) ns remotes True) =
         Returns (List.map_filter (cursorOf p) (pre @ post))
     \<and> Suc (length (List.map_filter (cursorOf p) (pre @ post))) = length remotes
     \<and> distinct (map cursorShardId (List.map_filter (cursorOf p) (pre @ post)))
     \<and> submittedKills (establishCursors p k executor (pre @ ev # post) ns remotes True) = []"
proof -
  have sw: "swallowed k True st"
    using assms(5) by (simp add: swallowed_def)
  have step: "collectStep p k True ev cs = (Completed, cs)"
    using collectStep_failure [OF assms(4), of k True cs] sw by simp
  have "benign p k True ev"
    using assms(4) sw by (simp add: benign_def)
  then have "list_all (benign p k True) (pre @ ev # post)"
    using opensCursor_all_benign [OF assms(1)] opensCursor_all_benign [OF assms(2)] by simp
  note run = establishCursors_benign [OF this, of executor ns remotes]
  have cs: "List.map_filter (cursorOf p) (pre @ ev # post) =
      List.map_filter (cursorOf p) (pre @ post)"
    using failure_cursorOf [OF assms(4)] by (simp add: map_filter_append)
  have both: "list_all (opensCursor p) (pre @ post)"
    using assms(1,2) by simp
  have ids: "map cursorShardId (List.map_filter (cursorOf p) (pre @ post)) =
      deliveredShardIds pre @ deliveredShardIds post"
    using cursorOf_shardIds [OF both] by (simp add: deliveredShardIds_append)
  from deliveredShardIds_Cons_delivery [OF assms(3)] obtain s where
    s: "deliveredShardIds (pre @ ev # post) =
        deliveredShardIds pre @ s # deliveredShardIds post"
    by (auto simp: deliveredShardIds_append)
  have "length (deliveredShardIds (pre @ ev # post)) = length remotes"
    using assms(6) by (metis length_map size_mset)
  then have len: "Suc (length (List.map_filter (cursorOf p) (pre @ post))) = length remotes"
    using s ids by (metis length_append length_map add_Suc_right length_Cons)
  have "distinct (deliveredShardIds (pre @ ev # post))"
    using assms(6,7) by (metis mset_eq_imp_distinct_iff)
  then have dist: "distinct (map cursorShardId (List.map_filter (cursorOf p) (pre @ post)))"
    using s ids by auto
  show ?thesis
    using step run cs len dist by simp
qed

theorem one_retriable_failure_is_skipped_witness:
  "list_all (opensCursor parseDoc) [opened ''shard1'' ''host1'' ''coll'' 101]
   \<and> list_all (opensCursor parseDoc) [opened ''shard3'' ''host3'' ''coll'' 303]
   \<and> isDelivery (timedOut ''shard2'')
   \<and> failure parseDoc (timedOut ''shard2'') = Some networkTimeout
   \<and> code networkTimeout \<in> set retriable
   \<and> mset (deliveredShardIds ([opened ''shard1'' ''host1'' ''coll'' 101] @
        timedOut ''shard2'' # [opened ''shard3'' ''host3'' ''coll'' 303])) =
      mset (map fst threeShards)
   \<and> distinct (map fst threeShards)
   \<and> outcome (establishCursors parseDoc retriable acceptAll
        ([opened ''shard1'' ''host1'' ''coll'' 101] @ timedOut ''shard2'' #
         [opened ''shard3'' ''host3'' ''coll'' 303]) testColl threeShards True) =
      Returns [cursorAt ''shard1'' ''host1'' ''coll'' 101, cursorAt ''shard3'' ''host3'' ''coll'' 303]"
proof -
  have 1: "list_all (opensCursor parseDoc) [opened ''shard1'' ''host1'' ''coll'' 101]"
    by (simp add: opened_def opensCursor_def parsed_def hostPresent_def)
  have 2: "list_all (opensCursor parseDoc) [opened ''shard3'' ''host3'' ''coll'' 303]"
    by (simp add: opened_def opensCursor_def parsed_def hostPresent_def)
  have 3: "isDelivery (timedOut ''shard2'')"
    by (simp add: timedOut_def isDelivery_def)
  have 4: "failure parseDoc (timedOut ''shard2'') = Some networkTimeout"
    by (simp add: timedOut_def failure_def)
  have 5: "code networkTimeout \<in> set retriable"
    by (simp add: networkTimeout_def retriable_def)
  have 6: "mset (deliveredShardIds ([opened ''shard1'' ''host1'' ''coll'' 101] @
        timedOut ''shard2'' # [opened ''shard3'' ''host3'' ''coll'' 303])) =
      mset (map fst threeShards)"
    by (simp add: opened_def timedOut_def deliveredShardIds_def threeShards_def)
  have 7: "distinct (map fst threeShards)"
    by (simp add: threeShards_def)
  show ?thesis
    using 1 2 3 4 5 6 7
      one_retriable_failure_is_skipped [OF 1 2 3 4 5 6 7, of "[]" acceptAll testColl]
    by (simp add: cursorOf_def parsed_def opened_def cursorAt_def)
qed

text \<open>C5. A failing completion is swallowed exactly when \<open>allowPartialResults\<close> is set and its
  code is retriable. Any other failure is fatal, with or without \<open>allowPartialResults\<close>: the
  sender is told to stop retrying and is drained, the cursors gathered are killed, and the
  failure is raised; a failure that is not retriable ends the call in the same final state
  with \<open>allowPartialResults\<close> as without. A swallowed failure among completions that open
  cursors lets the call return their cursors, with no stop and no kill.\<close>

theorem failure_swallowed_iff:
  assumes "failure p ev = Some st" and "list_all (opensCursor p) pre"
    and "list_all hostPresent post"
  shows "collectStep p k a ev cs =
       (if a \<and> code st \<in> set k then (Completed, cs) else (Threw st, cs))
     \<and> (\<not> (a \<and> code st \<in> set k) \<longrightarrow>
          outcome (establishCursors p k executor (pre @ ev # post) ns remotes a) = Raises st
          \<and> sender (establishCursors p k executor (pre @ ev # post) ns remotes a) =
              \<lparr>requests = remotes, pending = drop (drainFetches post) post,
               calls = replicate (Suc (length pre)) CallNext @ CallStopRetrying #
                       replicate (drainFetches post) CallNext\<rparr>
          \<and> established (establishCursors p k executor (pre @ ev # post) ns remotes a) =
              List.map_filter (cursorOf p) pre @
              List.map_filter (cursorOf p) (take (drainFetches post) post)
          \<and> submittedKills (establishCursors p k executor (pre @ ev # post) ns remotes a) =
              (if list_all isDelivery post
               then if neverThrows executor
                    then map (killRequest ns)
                           (established
                              (establishCursors p k executor (pre @ ev # post) ns remotes a))
                    else map (killRequest ns)
                           (take (length (submittedKills
                                    (establishCursors p k executor (pre @ ev # post) ns
                                       remotes a)))
                              (established
                                 (establishCursors p k executor (pre @ ev # post) ns remotes a)))
               else []))
     \<and> (a \<and> code st \<in> set k \<and> list_all (opensCursor p) post \<longrightarrow>
          outcome (establishCursors p k executor (pre @ ev # post) ns remotes a) =
            Returns (List.map_filter (cursorOf p) pre @ List.map_filter (cursorOf p) post)
          \<and> calls (sender (establishCursors p k executor (pre @ ev # post) ns remotes a)) =
              replicate (Suc (length pre + length post)) CallNext
          \<and> submittedKills (establishCursors p k executor (pre @ ev # post) ns remotes a) = [])
     \<and> establishCursors p k executor (pre @ ev # post) ns remotes False =
         fatalPath p executor ns st
           \<lparr>requests = remotes, pending = post, calls = replicate (Suc (length pre)) CallNext\<rparr>
           (List.map_filter (cursorOf p) pre)
     \<and> (code st \<notin> set k \<longrightarrow>
          establishCursors p k executor (pre @ ev # post) ns remotes True =
          establishCursors p k executor (pre @ ev # post) ns remotes False)"
proof -
  have 1: "collectStep p k a ev cs =
       (if a \<and> code st \<in> set k then (Completed, cs) else (Threw st, cs))"
    using collectStep_failure [OF assms(1), of k a cs] by (simp add: swallowed_def)
  have pre: "\<And>b. list_all (benign p k b) pre"
    by (rule opensCursor_all_benign [OF assms(2)])
  have 2: "\<not> (a \<and> code st \<in> set k) \<longrightarrow>
          outcome (establishCursors p k executor (pre @ ev # post) ns remotes a) = Raises st
          \<and> sender (establishCursors p k executor (pre @ ev # post) ns remotes a) =
              \<lparr>requests = remotes, pending = drop (drainFetches post) post,
               calls = replicate (Suc (length pre)) CallNext @ CallStopRetrying #
                       replicate (drainFetches post) CallNext\<rparr>
          \<and> established (establishCursors p k executor (pre @ ev # post) ns remotes a) =
              List.map_filter (cursorOf p) pre @
              List.map_filter (cursorOf p) (take (drainFetches post) post)
          \<and> submittedKills (establishCursors p k executor (pre @ ev # post) ns remotes a) =
              (if list_all isDelivery post
               then if neverThrows executor
                    then map (killRequest ns)
                           (established
                              (establishCursors p k executor (pre @ ev # post) ns remotes a))
                    else map (killRequest ns)
                           (take (length (submittedKills
                                    (establishCursors p k executor (pre @ ev # post) ns
                                       remotes a)))
                              (established
                                 (establishCursors p k executor (pre @ ev # post) ns remotes a)))
               else [])"
  proof
    assume "\<not> (a \<and> code st \<in> set k)"
    then have ns: "\<not> swallowed k a st"
      by (simp add: swallowed_def)
    note obs = establishCursors_fatal_observed [OF pre assms(1) ns assms(3),
        of executor ns remotes]
    from obs(1) obs(2) obs(3) obs(4)
    show "outcome (establishCursors p k executor (pre @ ev # post) ns remotes a) = Raises st
          \<and> sender (establishCursors p k executor (pre @ ev # post) ns remotes a) =
              \<lparr>requests = remotes, pending = drop (drainFetches post) post,
               calls = replicate (Suc (length pre)) CallNext @ CallStopRetrying #
                       replicate (drainFetches post) CallNext\<rparr>
          \<and> established (establishCursors p k executor (pre @ ev # post) ns remotes a) =
              List.map_filter (cursorOf p) pre @
              List.map_filter (cursorOf p) (take (drainFetches post) post)
          \<and> submittedKills (establishCursors p k executor (pre @ ev # post) ns remotes a) =
              (if list_all isDelivery post
               then if neverThrows executor
                    then map (killRequest ns)
                           (established
                              (establishCursors p k executor (pre @ ev # post) ns remotes a))
                    else map (killRequest ns)
                           (take (length (submittedKills
                                    (establishCursors p k executor (pre @ ev # post) ns
                                       remotes a)))
                              (established
                                 (establishCursors p k executor (pre @ ev # post) ns remotes a)))
               else [])"
      by (intro conjI)
  qed
  have 3: "a \<and> code st \<in> set k \<and> list_all (opensCursor p) post \<longrightarrow>
          outcome (establishCursors p k executor (pre @ ev # post) ns remotes a) =
            Returns (List.map_filter (cursorOf p) pre @ List.map_filter (cursorOf p) post)
          \<and> calls (sender (establishCursors p k executor (pre @ ev # post) ns remotes a)) =
              replicate (Suc (length pre + length post)) CallNext
          \<and> submittedKills (establishCursors p k executor (pre @ ev # post) ns remotes a) = []"
  proof
    assume h: "a \<and> code st \<in> set k \<and> list_all (opensCursor p) post"
    then have "benign p k a ev"
      using assms(1) by (simp add: benign_def swallowed_def)
    then have "list_all (benign p k a) (pre @ ev # post)"
      using pre [of a] opensCursor_all_benign [of p post k a] h by simp
    note run = establishCursors_benign [OF this, of executor ns remotes]
    have cs: "List.map_filter (cursorOf p) (pre @ ev # post) =
        List.map_filter (cursorOf p) pre @ List.map_filter (cursorOf p) post"
      using failure_cursorOf [OF assms(1)] by (simp add: map_filter_append)
    show "outcome (establishCursors p k executor (pre @ ev # post) ns remotes a) =
            Returns (List.map_filter (cursorOf p) pre @ List.map_filter (cursorOf p) post)
          \<and> calls (sender (establishCursors p k executor (pre @ ev # post) ns remotes a)) =
              replicate (Suc (length pre + length post)) CallNext
          \<and> submittedKills (establishCursors p k executor (pre @ ev # post) ns remotes a) = []"
      unfolding run cs by simp
  qed
  have f: "\<not> swallowed k False st"
    by (simp add: swallowed_def)
  note 4 = establishCursors_fatal [OF pre assms(1) f, of executor post ns remotes]
  have 5: "code st \<notin> set k \<longrightarrow>
          establishCursors p k executor (pre @ ev # post) ns remotes True =
          establishCursors p k executor (pre @ ev # post) ns remotes False"
  proof
    assume "code st \<notin> set k"
    then have t: "\<not> swallowed k True st"
      by (simp add: swallowed_def)
    show "establishCursors p k executor (pre @ ev # post) ns remotes True =
          establishCursors p k executor (pre @ ev # post) ns remotes False"
      using establishCursors_fatal [OF pre assms(1) t, of executor post ns remotes] 4
      by simp
  qed
  from 1 2 3 4 5 show ?thesis by blast
qed

theorem failure_swallowed_iff_witness:
  "failure parseDoc (repliedError ''shard2'' ''host2'' 26) = Some namespaceNotFound
   \<and> failure parseDoc (timedOut ''shard2'') = Some networkTimeout
   \<and> list_all (opensCursor parseDoc) [opened ''shard1'' ''host1'' ''coll'' 101]
   \<and> list_all hostPresent [opened ''shard3'' ''host3'' ''coll'' 303]
   \<and> list_all (opensCursor parseDoc) [opened ''shard3'' ''host3'' ''coll'' 303]
   \<and> code namespaceNotFound \<notin> set retriable
   \<and> code networkTimeout \<in> set retriable
   \<and> outcome (establishCursors parseDoc retriable acceptAll
        ([opened ''shard1'' ''host1'' ''coll'' 101] @ repliedError ''shard2'' ''host2'' 26 #
         [opened ''shard3'' ''host3'' ''coll'' 303]) testColl threeShards True) =
      Raises namespaceNotFound
   \<and> submittedKills (establishCursors parseDoc retriable acceptAll
        ([opened ''shard1'' ''host1'' ''coll'' 101] @ repliedError ''shard2'' ''host2'' 26 #
         [opened ''shard3'' ''host3'' ''coll'' 303]) testColl threeShards True) =
      [killRequest testColl (cursorAt ''shard1'' ''host1'' ''coll'' 101),
       killRequest testColl (cursorAt ''shard3'' ''host3'' ''coll'' 303)]
   \<and> calls (sender (establishCursors parseDoc retriable acceptAll
        ([opened ''shard1'' ''host1'' ''coll'' 101] @ repliedError ''shard2'' ''host2'' 26 #
         [opened ''shard3'' ''host3'' ''coll'' 303]) testColl threeShards True)) =
      [CallNext, CallNext, CallStopRetrying, CallNext]
   \<and> establishCursors parseDoc retriable acceptAll
        ([opened ''shard1'' ''host1'' ''coll'' 101] @ repliedError ''shard2'' ''host2'' 26 #
         [opened ''shard3'' ''host3'' ''coll'' 303]) testColl threeShards True =
      establishCursors parseDoc retriable acceptAll
        ([opened ''shard1'' ''host1'' ''coll'' 101] @ repliedError ''shard2'' ''host2'' 26 #
         [opened ''shard3'' ''host3'' ''coll'' 303]) testColl threeShards False
   \<and> outcome (establishCursors parseDoc retriable acceptAll
        ([opened ''shard1'' ''host1'' ''coll'' 101] @ timedOut ''shard2'' #
         [opened ''shard3'' ''host3'' ''coll'' 303]) testColl threeShards False) =
      Raises networkTimeout
   \<and> outcome (establishCursors parseDoc retriable acceptAll
        ([opened ''shard1'' ''host1'' ''coll'' 101] @ timedOut ''shard2'' #
         [opened ''shard3'' ''host3'' ''coll'' 303]) testColl threeShards True) =
      Returns [cursorAt ''shard1'' ''host1'' ''coll'' 101, cursorAt ''shard3'' ''host3'' ''coll'' 303]"
proof -
  let ?pre = "[opened ''shard1'' ''host1'' ''coll'' 101]"
  let ?post = "[opened ''shard3'' ''host3'' ''coll'' 303]"
  have 1: "failure parseDoc (repliedError ''shard2'' ''host2'' 26) = Some namespaceNotFound"
    by (simp add: failure_def repliedError_def namespaceNotFound_def)
  have tmo: "failure parseDoc (timedOut ''shard2'') = Some networkTimeout"
    by (simp add: failure_def timedOut_def)
  have 2: "list_all (opensCursor parseDoc) ?pre"
    by (simp add: opened_def opensCursor_def parsed_def hostPresent_def)
  have 3: "list_all hostPresent ?post"
    by (simp add: opened_def hostPresent_def)
  have 4: "list_all (opensCursor parseDoc) ?post"
    by (simp add: opened_def opensCursor_def parsed_def hostPresent_def)
  have 5: "code namespaceNotFound \<notin> set retriable"
    by (simp add: namespaceNotFound_def retriable_def)
  have 6: "code networkTimeout \<in> set retriable"
    by (simp add: networkTimeout_def retriable_def)
  have 7: "list_all isDelivery ?post"
    by (simp add: opened_def isDelivery_def)
  have m: "drainFetches ?post = 1"
    by (simp add: drainFetches_def opened_def isDelivery_def)
  have c: "List.map_filter (cursorOf parseDoc) ?pre = [cursorAt ''shard1'' ''host1'' ''coll'' 101]"
    "List.map_filter (cursorOf parseDoc) ?post = [cursorAt ''shard3'' ''host3'' ''coll'' 303]"
    by (simp_all add: cursorOf_def parsed_def opened_def cursorAt_def)
  note fatalT = failure_swallowed_iff [OF 1 2 3, of retriable True "[]" acceptAll testColl
      threeShards]
  note fatalF = failure_swallowed_iff [OF tmo 2 3, of retriable False "[]" acceptAll testColl
      threeShards]
  note skipT = failure_swallowed_iff [OF tmo 2 3, of retriable True "[]" acceptAll testColl
      threeShards]
  let ?T = "establishCursors parseDoc retriable acceptAll
        (?pre @ repliedError ''shard2'' ''host2'' 26 # ?post) testColl threeShards True"
  have nf: "\<not> (True \<and> code namespaceNotFound \<in> set retriable)"
    using 5 by simp
  from fatalT nf 5
  have a: "outcome ?T = Raises namespaceNotFound"
    and sd: "sender ?T =
       \<lparr>requests = threeShards, pending = drop (drainFetches ?post) ?post,
        calls = replicate (Suc (length ?pre)) CallNext @ CallStopRetrying #
                replicate (drainFetches ?post) CallNext\<rparr>"
    and es: "established ?T =
       List.map_filter (cursorOf parseDoc) ?pre @
       List.map_filter (cursorOf parseDoc) (take (drainFetches ?post) ?post)"
    and sk: "submittedKills ?T =
       (if list_all isDelivery ?post
        then if neverThrows acceptAll
             then map (killRequest testColl) (established ?T)
             else map (killRequest testColl) (take (length (submittedKills ?T)) (established ?T))
        else [])"
    and e: "?T = establishCursors parseDoc retriable acceptAll
        (?pre @ repliedError ''shard2'' ''host2'' 26 # ?post) testColl threeShards False"
    by blast+
  have es': "established ?T =
      [cursorAt ''shard1'' ''host1'' ''coll'' 101, cursorAt ''shard3'' ''host3'' ''coll'' 303]"
    unfolding es m by (simp add: cursorOf_def parsed_def opened_def cursorAt_def)
  note sk [unfolded if_P [OF 7] if_P [OF neverThrows_acceptAll]]
  then have b: "submittedKills ?T =
      [killRequest testColl (cursorAt ''shard1'' ''host1'' ''coll'' 101),
       killRequest testColl (cursorAt ''shard3'' ''host3'' ''coll'' 303)]"
    unfolding es' by simp
  have d: "calls (sender ?T) = [CallNext, CallNext, CallStopRetrying, CallNext]"
    unfolding sd m by simp
  have nr: "\<not> (False \<and> code networkTimeout \<in> set retriable)"
    by simp
  from fatalF nr
  have g: "outcome (establishCursors parseDoc retriable acceptAll
        (?pre @ timedOut ''shard2'' # ?post) testColl threeShards False) =
      Raises networkTimeout"
    by blast
  have sw: "True \<and> code networkTimeout \<in> set retriable \<and> list_all (opensCursor parseDoc) ?post"
    using 4 6 by simp
  from skipT sw
  have "outcome (establishCursors parseDoc retriable acceptAll
        (?pre @ timedOut ''shard2'' # ?post) testColl threeShards True) =
      Returns (List.map_filter (cursorOf parseDoc) ?pre @
               List.map_filter (cursorOf parseDoc) ?post)"
    by blast
  then have h: "outcome (establishCursors parseDoc retriable acceptAll
        (?pre @ timedOut ''shard2'' # ?post) testColl threeShards True) =
      Returns [cursorAt ''shard1'' ''host1'' ''coll'' 101, cursorAt ''shard3'' ''host3'' ''coll'' 303]"
    unfolding c by simp
  from 1 tmo 2 3 4 5 6 a b d e g h show ?thesis
    by (intro conjI)
qed

text \<open>C6, as amended. Once a fatal failure is observed the sender is told to stop retrying,
  and only then are further completions fetched: all the pending ones when no call of \<open>next\<close>
  throws, and otherwise those up to and with the first call that throws, the later ones
  staying in the sender. Each successfully parsed response that was fetched adds its cursor.
  When no call throws, the sender ends done and the cursors of the drain are among those
  killed; when a call throws, nothing is killed.\<close>

theorem drain_after_fatal_failure:
  assumes "list_all (benign p k a) pre" and "failure p ev = Some ex"
    and "\<not> swallowed k a ex" and "list_all hostPresent post"
  shows "sender (establishCursors p k executor (pre @ ev # post) ns remotes a) =
       \<lparr>requests = remotes, pending = drop (drainFetches post) post,
        calls = replicate (Suc (length pre)) CallNext @ CallStopRetrying #
                replicate (drainFetches post) CallNext\<rparr>
     \<and> drainFetches post =
         (if list_all isDelivery post then length post
          else Suc (length (takeWhile isDelivery post)))
     \<and> arsDone (sender (establishCursors p k executor (pre @ ev # post) ns remotes a)) =
         (drainFetches post = length post)
     \<and> established (establishCursors p k executor (pre @ ev # post) ns remotes a) =
         List.map_filter (cursorOf p) pre @
         List.map_filter (cursorOf p) (take (drainFetches post) post)
     \<and> submittedKills (establishCursors p k executor (pre @ ev # post) ns remotes a) =
         (if list_all isDelivery post
          then if neverThrows executor
               then map (killRequest ns)
                      (List.map_filter (cursorOf p) pre @ List.map_filter (cursorOf p) post)
               else map (killRequest ns)
                      (take (length (submittedKills
                               (establishCursors p k executor (pre @ ev # post) ns remotes a)))
                         (List.map_filter (cursorOf p) pre @
                          List.map_filter (cursorOf p) post))
          else [])"
proof -
  note obs = establishCursors_fatal_observed [OF assms, of executor ns remotes]
  have 2: "drainFetches post =
         (if list_all isDelivery post then length post
          else Suc (length (takeWhile isDelivery post)))"
  proof (cases "list_all isDelivery post")
    case True
    then show ?thesis by (simp add: drainFetches_deliveries)
  next
    case False
    from first_throw [OF False] obtain pre' ex' rest where
      s: "post = pre' @ NextThrows ex' # rest" "list_all isDelivery pre'"
      by blast
    have tw: "takeWhile isDelivery post = pre'"
      unfolding s(1) using s(2) by (simp add: list_all_iff isDelivery_def)
    have m: "drainFetches post = Suc (length pre')"
      unfolding s(1) by (rule drainFetches_throws [OF s(2)])
    show ?thesis
      using False by (simp add: m tw)
  qed
  have le: "drainFetches post \<le> length post"
    by (simp add: drainFetches_def)
  have 3: "arsDone (sender (establishCursors p k executor (pre @ ev # post) ns remotes a)) =
         (drainFetches post = length post)"
    unfolding obs(2) using le by (auto simp: arsDone_def)
  have 5: "submittedKills (establishCursors p k executor (pre @ ev # post) ns remotes a) =
         (if list_all isDelivery post
          then if neverThrows executor
               then map (killRequest ns)
                      (List.map_filter (cursorOf p) pre @ List.map_filter (cursorOf p) post)
               else map (killRequest ns)
                      (take (length (submittedKills
                               (establishCursors p k executor (pre @ ev # post) ns remotes a)))
                         (List.map_filter (cursorOf p) pre @
                          List.map_filter (cursorOf p) post))
          else [])"
  proof (cases "list_all isDelivery post")
    case True
    have est: "established (establishCursors p k executor (pre @ ev # post) ns remotes a) =
        List.map_filter (cursorOf p) pre @ List.map_filter (cursorOf p) post"
      unfolding obs(3) drainFetches_deliveries [OF True] by simp
    show ?thesis
    proof (cases "neverThrows executor")
      case nt: True
      from obs(4) [unfolded if_P [OF True] if_P [OF nt] est]
      show ?thesis
        unfolding if_P [OF True] if_P [OF nt] .
    next
      case nt: False
      from obs(4) [unfolded if_P [OF True] if_not_P [OF nt] est]
      show ?thesis
        unfolding if_P [OF True] if_not_P [OF nt] .
    qed
  next
    case False
    from obs(4) [unfolded if_not_P [OF False]]
    show ?thesis
      unfolding if_not_P [OF False] .
  qed
  from obs(2) 2 3 obs(3) 5 show ?thesis
    by (intro conjI)
qed

theorem drain_after_fatal_failure_witness:
  "list_all (benign parseDoc retriable True) [timedOut ''shard1'']
   \<and> failure parseDoc (repliedError ''shard2'' ''host2'' 26) = Some namespaceNotFound
   \<and> \<not> swallowed retriable True namespaceNotFound
   \<and> list_all hostPresent [opened ''shard3'' ''host3'' ''coll'' 303]
   \<and> list_all hostPresent [NextThrows interrupted, opened ''shard3'' ''host3'' ''coll'' 303]
   \<and> sender (establishCursors parseDoc retriable acceptAll
        ([timedOut ''shard1''] @ repliedError ''shard2'' ''host2'' 26 #
         [opened ''shard3'' ''host3'' ''coll'' 303]) testColl threeShards True) =
      \<lparr>requests = threeShards, pending = [],
       calls = [CallNext, CallNext, CallStopRetrying, CallNext]\<rparr>
   \<and> established (establishCursors parseDoc retriable acceptAll
        ([timedOut ''shard1''] @ repliedError ''shard2'' ''host2'' 26 #
         [opened ''shard3'' ''host3'' ''coll'' 303]) testColl threeShards True) =
      [cursorAt ''shard3'' ''host3'' ''coll'' 303]
   \<and> submittedKills (establishCursors parseDoc retriable acceptAll
        ([timedOut ''shard1''] @ repliedError ''shard2'' ''host2'' 26 #
         [opened ''shard3'' ''host3'' ''coll'' 303]) testColl threeShards True) =
      [killRequest testColl (cursorAt ''shard3'' ''host3'' ''coll'' 303)]
   \<and> sender (establishCursors parseDoc retriable acceptAll
        ([timedOut ''shard1''] @ repliedError ''shard2'' ''host2'' 26 #
         [NextThrows interrupted, opened ''shard3'' ''host3'' ''coll'' 303])
        testColl threeShards True) =
      \<lparr>requests = threeShards, pending = [opened ''shard3'' ''host3'' ''coll'' 303],
       calls = [CallNext, CallNext, CallStopRetrying, CallNext]\<rparr>
   \<and> established (establishCursors parseDoc retriable acceptAll
        ([timedOut ''shard1''] @ repliedError ''shard2'' ''host2'' 26 #
         [NextThrows interrupted, opened ''shard3'' ''host3'' ''coll'' 303])
        testColl threeShards True) = []
   \<and> submittedKills (establishCursors parseDoc retriable acceptAll
        ([timedOut ''shard1''] @ repliedError ''shard2'' ''host2'' 26 #
         [NextThrows interrupted, opened ''shard3'' ''host3'' ''coll'' 303])
        testColl threeShards True) = []"
proof -
  let ?pre = "[timedOut ''shard1'']"
  let ?post = "[opened ''shard3'' ''host3'' ''coll'' 303]"
  let ?post' = "[NextThrows interrupted, opened ''shard3'' ''host3'' ''coll'' 303]"
  let ?A = "establishCursors parseDoc retriable acceptAll
        (?pre @ repliedError ''shard2'' ''host2'' 26 # ?post) testColl threeShards True"
  let ?B = "establishCursors parseDoc retriable acceptAll
        (?pre @ repliedError ''shard2'' ''host2'' 26 # ?post') testColl threeShards True"
  have 1: "list_all (benign parseDoc retriable True) ?pre"
    by (simp add: benign_def failure_def timedOut_def swallowed_def networkTimeout_def
        retriable_def)
  have 2: "failure parseDoc (repliedError ''shard2'' ''host2'' 26) = Some namespaceNotFound"
    by (simp add: failure_def repliedError_def namespaceNotFound_def)
  have 3: "\<not> swallowed retriable True namespaceNotFound"
    by (simp add: swallowed_def namespaceNotFound_def retriable_def)
  have 4: "list_all hostPresent ?post"
    by (simp add: opened_def hostPresent_def)
  have 5: "list_all hostPresent ?post'"
    by (simp add: opened_def hostPresent_def)
  have d: "list_all isDelivery ?post" "\<not> list_all isDelivery ?post'"
    by (simp_all add: opened_def isDelivery_def)
  have m: "drainFetches ?post = 1" "drainFetches ?post' = 1"
    by (simp_all add: drainFetches_def opened_def isDelivery_def)
  have c: "List.map_filter (cursorOf parseDoc) ?pre = []"
    "List.map_filter (cursorOf parseDoc) ?post = [cursorAt ''shard3'' ''host3'' ''coll'' 303]"
    "List.map_filter (cursorOf parseDoc) (take 1 ?post) =
       [cursorAt ''shard3'' ''host3'' ''coll'' 303]"
    "List.map_filter (cursorOf parseDoc) (take 1 ?post') = []"
    by (simp_all add: cursorOf_def parsed_def opened_def timedOut_def cursorAt_def)
  from drain_after_fatal_failure [OF 1 2 3 4, of acceptAll testColl threeShards]
  have a1: "sender ?A =
       \<lparr>requests = threeShards, pending = drop (drainFetches ?post) ?post,
        calls = replicate (Suc (length ?pre)) CallNext @ CallStopRetrying #
                replicate (drainFetches ?post) CallNext\<rparr>"
    and a2: "established ?A =
         List.map_filter (cursorOf parseDoc) ?pre @
         List.map_filter (cursorOf parseDoc) (take (drainFetches ?post) ?post)"
    and a3: "submittedKills ?A =
         (if list_all isDelivery ?post
          then if neverThrows acceptAll
               then map (killRequest testColl)
                      (List.map_filter (cursorOf parseDoc) ?pre @
                       List.map_filter (cursorOf parseDoc) ?post)
               else map (killRequest testColl)
                      (take (length (submittedKills ?A))
                         (List.map_filter (cursorOf parseDoc) ?pre @
                          List.map_filter (cursorOf parseDoc) ?post))
          else [])"
    by blast+
  from drain_after_fatal_failure [OF 1 2 3 5, of acceptAll testColl threeShards]
  have b1: "sender ?B =
       \<lparr>requests = threeShards, pending = drop (drainFetches ?post') ?post',
        calls = replicate (Suc (length ?pre)) CallNext @ CallStopRetrying #
                replicate (drainFetches ?post') CallNext\<rparr>"
    and b2: "established ?B =
         List.map_filter (cursorOf parseDoc) ?pre @
         List.map_filter (cursorOf parseDoc) (take (drainFetches ?post') ?post')"
    and b3: "submittedKills ?B =
         (if list_all isDelivery ?post'
          then if neverThrows acceptAll
               then map (killRequest testColl)
                      (List.map_filter (cursorOf parseDoc) ?pre @
                       List.map_filter (cursorOf parseDoc) ?post')
               else map (killRequest testColl)
                      (take (length (submittedKills ?B))
                         (List.map_filter (cursorOf parseDoc) ?pre @
                          List.map_filter (cursorOf parseDoc) ?post'))
          else [])"
    by blast+
  have A1: "sender ?A = \<lparr>requests = threeShards, pending = [],
       calls = [CallNext, CallNext, CallStopRetrying, CallNext]\<rparr>"
    unfolding a1 m by simp
  have A2: "established ?A = [cursorAt ''shard3'' ''host3'' ''coll'' 303]"
    unfolding a2 m c by simp
  note a3 [unfolded if_P [OF d(1)] if_P [OF neverThrows_acceptAll]]
  then have A3: "submittedKills ?A =
      [killRequest testColl (cursorAt ''shard3'' ''host3'' ''coll'' 303)]"
    unfolding c by simp
  have B1: "sender ?B = \<lparr>requests = threeShards,
       pending = [opened ''shard3'' ''host3'' ''coll'' 303],
       calls = [CallNext, CallNext, CallStopRetrying, CallNext]\<rparr>"
    unfolding b1 m by simp
  have B2: "established ?B = []"
    unfolding b2 m c by simp
  have B3: "submittedKills ?B = []"
    by (rule b3 [unfolded if_not_P [OF d(2)]])
  from 1 2 3 4 5 A1 A2 A3 B1 B2 B3 show ?thesis
    by (intro conjI)
qed

text \<open>The claim C6 as stated fails when \<open>next\<close> throws during the drain: the fetching stops
  with a completion left in the sender, whose cursor is neither gathered nor killed.\<close>

theorem drain_counterexample:
  "outcome (establishCursors parseDoc retriable acceptAll
      [repliedError ''shard2'' ''host2'' 26, NextThrows interrupted,
       opened ''shard3'' ''host3'' ''coll'' 303] testColl threeShards False) =
     Raises namespaceNotFound
   \<and> sender (establishCursors parseDoc retriable acceptAll
      [repliedError ''shard2'' ''host2'' 26, NextThrows interrupted,
       opened ''shard3'' ''host3'' ''coll'' 303] testColl threeShards False) =
     \<lparr>requests = threeShards, pending = [opened ''shard3'' ''host3'' ''coll'' 303],
      calls = [CallNext, CallStopRetrying, CallNext]\<rparr>
   \<and> established (establishCursors parseDoc retriable acceptAll
      [repliedError ''shard2'' ''host2'' 26, NextThrows interrupted,
       opened ''shard3'' ''host3'' ''coll'' 303] testColl threeShards False) = []
   \<and> submittedKills (establishCursors parseDoc retriable acceptAll
      [repliedError ''shard2'' ''host2'' 26, NextThrows interrupted,
       opened ''shard3'' ''host3'' ''coll'' 303] testColl threeShards False) = []"
  by (simp add: establishCursors_def AsyncRequestsSender_def collectLoop_Cons
      drainLoop_Cons collectStep_def collectBody_def drainStep_def repliedError_def
      fatalPath_def stopRetrying_def namespaceNotFound_def)

text \<open>C7, as amended. Every request submitted on the fatal path goes to the host recorded
  for its cursor, names the database and the namespace that \<open>establishCursors\<close> was called
  with, and carries the id of that one cursor. What the executor answers changes nothing: an
  executor that returns error statuses leaves the same final state as one that schedules
  everything, and the failure raised is the first fatal one even when the executor throws.\<close>

theorem kill_request_shape:
  assumes "list_all hostPresent schedule"
    and "firstFatal p k a schedule = Some ex"
  shows "submittedKills (establishCursors p k executor schedule ns remotes a) =
       map (\<lambda>c. \<lparr>target = hostAndPort c, dbname = db ns,
                 cmdObj = \<lparr>nss = ns, cursorIds = [getCursorId (cursorResponse c)]\<rparr>\<rparr>)
         (take (length (submittedKills (establishCursors p k executor schedule ns remotes a)))
            (established (establishCursors p k executor schedule ns remotes a)))
     \<and> outcome (establishCursors p k executor schedule ns remotes a) = Raises ex
     \<and> (neverThrows executor \<longrightarrow>
          establishCursors p k executor schedule ns remotes a =
          establishCursors p k acceptAll schedule ns remotes a)"
proof -
  from firstFatal_Some [OF assms] obtain pre ev post where
    s: "schedule = pre @ ev # post" and pre: "list_all (benign p k a) pre"
    and ev: "failure p ev = Some ex" "\<not> swallowed k a ex"
    by blast
  have post: "list_all hostPresent post"
    using assms(1) s by simp
  from establishCursors_fatal_general [OF pre ev post, of executor ns remotes]
  have 1: "outcome (establishCursors p k executor schedule ns remotes a) = Raises ex"
    and 2: "submittedKills (establishCursors p k executor schedule ns remotes a) =
       map (killRequest ns)
         (take (length (submittedKills (establishCursors p k executor schedule ns remotes a)))
            (established (establishCursors p k executor schedule ns remotes a)))"
    unfolding s by blast+
  have shape: "killRequest ns = (\<lambda>c. \<lparr>target = hostAndPort c, dbname = db ns,
                 cmdObj = \<lparr>nss = ns, cursorIds = [getCursorId (cursorResponse c)]\<rparr>\<rparr>)"
    by (rule ext) (simp add: killRequest_def)
  have 3: "neverThrows executor \<longrightarrow>
          establishCursors p k executor schedule ns remotes a =
          establishCursors p k acceptAll schedule ns remotes a"
    using establishCursors_executor [OF _ neverThrows_acceptAll] by blast
  from 1 2 3 show ?thesis
    unfolding shape by blast
qed

theorem kill_request_shape_witness:
  "list_all hostPresent
     [opened ''shard1'' ''host1'' ''coll'' 101, repliedError ''shard2'' ''host2'' 26,
      opened ''shard3'' ''host3'' ''coll'' 303]
   \<and> firstFatal parseDoc retriable False
       [opened ''shard1'' ''host1'' ''coll'' 101, repliedError ''shard2'' ''host2'' 26,
        opened ''shard3'' ''host3'' ''coll'' 303] = Some namespaceNotFound
   \<and> neverThrows rejectAll
   \<and> outcome (establishCursors parseDoc retriable rejectAll
       [opened ''shard1'' ''host1'' ''coll'' 101, repliedError ''shard2'' ''host2'' 26,
        opened ''shard3'' ''host3'' ''coll'' 303] testColl threeShards False) =
     Raises namespaceNotFound
   \<and> establishCursors parseDoc retriable rejectAll
       [opened ''shard1'' ''host1'' ''coll'' 101, repliedError ''shard2'' ''host2'' 26,
        opened ''shard3'' ''host3'' ''coll'' 303] testColl threeShards False =
     establishCursors parseDoc retriable acceptAll
       [opened ''shard1'' ''host1'' ''coll'' 101, repliedError ''shard2'' ''host2'' 26,
        opened ''shard3'' ''host3'' ''coll'' 303] testColl threeShards False"
proof -
  let ?s = "[opened ''shard1'' ''host1'' ''coll'' 101, repliedError ''shard2'' ''host2'' 26,
      opened ''shard3'' ''host3'' ''coll'' 303]"
  have 1: "list_all hostPresent ?s"
    by (simp add: opened_def repliedError_def hostPresent_def)
  have 2: "firstFatal parseDoc retriable False ?s = Some namespaceNotFound"
    by (simp add: opened_def repliedError_def failure_def swallowed_def namespaceNotFound_def)
  show ?thesis
    using 1 2 neverThrows_rejectAll
      kill_request_shape [OF 1 2, of rejectAll testColl threeShards]
    by blast
qed

text \<open>The claim C7 as stated fails when a shard opens its cursor under another namespace
  than the one of the call: the cursor records \<open>test.other\<close>, the request that kills it
  names \<open>test.coll\<close>.\<close>

theorem kill_request_namespace_counterexample:
  "established (establishCursors parseDoc retriable acceptAll
      [opened ''shard1'' ''host1'' ''other'' 101, repliedError ''shard2'' ''host2'' 26]
      testColl threeShards False) =
     [cursorAt ''shard1'' ''host1'' ''other'' 101]
   \<and> getNSS (cursorResponse (cursorAt ''shard1'' ''host1'' ''other'' 101)) =
       \<lparr>db = ''test'', coll = ''other''\<rparr>
   \<and> submittedKills (establishCursors parseDoc retriable acceptAll
        [opened ''shard1'' ''host1'' ''other'' 101, repliedError ''shard2'' ''host2'' 26]
        testColl threeShards False) =
     [\<lparr>target = ''host1'', dbname = ''test'',
       cmdObj = \<lparr>nss = \<lparr>db = ''test'', coll = ''coll''\<rparr>, cursorIds = [101]\<rparr>\<rparr>]"
  by (simp add: establishCursors_def AsyncRequestsSender_def collectLoop_Cons collectLoop_Nil
      drainLoop_Nil collectStep_def collectBody_def opened_def repliedError_def fatalPath_def
      stopRetrying_def acceptAll_def killRequest_def testColl_def cursorAt_def)

text \<open>C8. A transport failure and a failure to parse a delivered response go through the
  same test: each is swallowed exactly when \<open>allowPartialResults\<close> is set and the code of its
  own status is retriable, and rethrown otherwise; with equal codes they fare alike.\<close>

theorem parse_failure_classified_like_transport_failure:
  assumes "swResponse rt = Inl stt"
    and "swResponse rp = Inr resp" and "p (data resp) = Inl stp"
  shows "collectStep p k a (Delivers rt) cs =
       (if a \<and> code stt \<in> set k then (Completed, cs) else (Threw stt, cs))
     \<and> collectStep p k a (Delivers rp) cs =
       (if a \<and> code stp \<in> set k then (Completed, cs) else (Threw stp, cs))
     \<and> (code stt = code stp \<longrightarrow>
          (fst (collectStep p k a (Delivers rt) cs) = Completed) =
          (fst (collectStep p k a (Delivers rp) cs) = Completed))"
  using assms by (simp add: collectStep_def collectBody_def)

theorem parse_failure_classified_like_transport_failure_witness:
  "swResponse \<lparr>shardId = ''shard1'', swResponse = Inl networkTimeout,
               shardHostAndPort = None\<rparr> = Inl networkTimeout
   \<and> swResponse \<lparr>shardId = ''shard2'', swResponse = Inr \<lparr>data = ErrorReply 89\<rparr>,
                 shardHostAndPort = Some ''hostp''\<rparr> = Inr \<lparr>data = ErrorReply 89\<rparr>
   \<and> parseDoc (data \<lparr>data = ErrorReply 89\<rparr>) = Inl \<lparr>code = 89, reason = ''error reply''\<rparr>
   \<and> code networkTimeout = code \<lparr>code = 89, reason = ''error reply''\<rparr>
   \<and> collectStep parseDoc retriable True
        (Delivers \<lparr>shardId = ''shard2'', swResponse = Inr \<lparr>data = ErrorReply 89\<rparr>,
                   shardHostAndPort = Some ''hostp''\<rparr>) [] = (Completed, [])
   \<and> collectStep parseDoc retriable True
        (Delivers \<lparr>shardId = ''shard1'', swResponse = Inl networkTimeout,
                   shardHostAndPort = None\<rparr>) [] = (Completed, [])"
proof -
  have 1: "swResponse \<lparr>shardId = ''shard1'', swResponse = Inl networkTimeout,
               shardHostAndPort = None\<rparr> = Inl networkTimeout"
    by simp
  have 2: "swResponse \<lparr>shardId = ''shard2'', swResponse = Inr \<lparr>data = ErrorReply 89\<rparr>,
                 shardHostAndPort = Some ''hostp''\<rparr> = Inr \<lparr>data = ErrorReply 89\<rparr>"
    by simp
  have 3: "parseDoc (data \<lparr>data = ErrorReply 89\<rparr>) = Inl \<lparr>code = 89, reason = ''error reply''\<rparr>"
    by simp
  have 4: "code networkTimeout = code \<lparr>code = 89, reason = ''error reply''\<rparr>"
    by (simp add: networkTimeout_def)
  show ?thesis
    using 1 2 3 4
      parse_failure_classified_like_transport_failure
        [where p = parseDoc and stt = networkTimeout and resp = "\<lparr>data = ErrorReply 89\<rparr>"
           and k = retriable and a = True and cs = "[]", OF 1 2 3]
    by (simp add: networkTimeout_def retriable_def)
qed

text \<open>C9. In both loops the optional host of a response is dereferenced only once the
  response has been parsed as a cursor response, so the dereference goes wrong exactly on a
  parsed response without a host. When every response whose \<open>swResponse\<close> is OK names its
  host, no call dereferences an empty optional.\<close>

theorem host_dereference_is_safe:
  assumes "list_all hostPresent schedule"
  shows "outcome (establishCursors p k executor schedule ns remotes a) \<noteq> UndefinedBehaviour
     \<and> (fst (collectStep p k a ev cs) = DerefNone) =
         (parsed p ev \<noteq> None \<and> eventHost ev = None)
     \<and> (fst (drainStep p ev cs) = DerefNone) =
         (parsed p ev \<noteq> None \<and> eventHost ev = None)"
proof -
  have 1: "outcome (establishCursors p k executor schedule ns remotes a) \<noteq> UndefinedBehaviour"
  proof (cases "firstFatal p k a schedule")
    case None
    from establishCursors_benign [OF firstFatal_None [OF assms None], of executor ns remotes]
    show ?thesis by simp
  next
    case (Some ex)
    from firstFatal_Some [OF assms Some] obtain pre ev post where
      s: "schedule = pre @ ev # post" and pre: "list_all (benign p k a) pre"
      and ev: "failure p ev = Some ex" "\<not> swallowed k a ex"
      by blast
    have "list_all hostPresent post"
      using assms s by simp
    from establishCursors_fatal_general [OF pre ev this, of executor ns remotes]
    show ?thesis
      unfolding s by auto
  qed
  have 2: "(fst (collectStep p k a ev cs) = DerefNone) =
         (parsed p ev \<noteq> None \<and> eventHost ev = None)"
    by (auto simp: collectStep_def collectBody_def parsed_def eventHost_def
        split: Event.splits sum.splits option.splits)
  have 3: "(fst (drainStep p ev cs) = DerefNone) =
         (parsed p ev \<noteq> None \<and> eventHost ev = None)"
    by (auto simp: drainStep_def parsed_def eventHost_def
        split: Event.splits sum.splits option.splits)
  from 1 2 3 show ?thesis by blast
qed

theorem host_dereference_is_safe_witness:
  "list_all hostPresent
     [opened ''shard1'' ''host1'' ''coll'' 101, timedOut ''shard2'',
      opened ''shard3'' ''host3'' ''coll'' 303]
   \<and> outcome (establishCursors parseDoc retriable acceptAll
       [opened ''shard1'' ''host1'' ''coll'' 101, timedOut ''shard2'',
        opened ''shard3'' ''host3'' ''coll'' 303] testColl threeShards False) \<noteq>
     UndefinedBehaviour"
proof -
  have 1: "list_all hostPresent
     [opened ''shard1'' ''host1'' ''coll'' 101, timedOut ''shard2'',
      opened ''shard3'' ''host3'' ''coll'' 303]"
    by (simp add: opened_def timedOut_def hostPresent_def)
  show ?thesis
    using 1 host_dereference_is_safe [OF 1, of parseDoc retriable acceptAll testColl
        threeShards False]
    by blast
qed

text \<open>C10. A completion that is not a successfully parsed cursor response leaves the list of
  cursors as it was, in the first loop, whether it is swallowed or rethrown, and in the drain:
  either loop then goes on, or ends, with the very list it had.\<close>

theorem failed_completion_adds_no_cursor:
  assumes "parsed p ev = None"
  shows "snd (collectStep p k a ev cs) = cs
     \<and> snd (drainStep p ev cs) = cs
     \<and> collectLoop p k a (ars\<lparr>pending := ev # rest\<rparr>) cs =
         (if fst (collectStep p k a ev cs) = Completed
          then collectLoop p k a (ars\<lparr>pending := rest, calls := calls ars @ [CallNext]\<rparr>) cs
          else (fst (collectStep p k a ev cs),
                ars\<lparr>pending := rest, calls := calls ars @ [CallNext]\<rparr>, cs))
     \<and> drainLoop p (ars\<lparr>pending := ev # rest\<rparr>) cs =
         (if fst (drainStep p ev cs) = Completed
          then drainLoop p (ars\<lparr>pending := rest, calls := calls ars @ [CallNext]\<rparr>) cs
          else (fst (drainStep p ev cs),
                ars\<lparr>pending := rest, calls := calls ars @ [CallNext]\<rparr>, cs))"
proof -
  have 1: "snd (collectStep p k a ev cs) = cs"
    using assms
    by (auto simp: collectStep_def collectBody_def parsed_def
        split: Event.splits sum.splits option.splits)
  have 2: "snd (drainStep p ev cs) = cs"
    using assms
    by (auto simp: drainStep_def parsed_def split: Event.splits sum.splits option.splits)
  have p: "pending (ars\<lparr>pending := ev # rest\<rparr>) = ev # rest"
    by simp
  have 3: "collectLoop p k a (ars\<lparr>pending := ev # rest\<rparr>) cs =
         (if fst (collectStep p k a ev cs) = Completed
          then collectLoop p k a (ars\<lparr>pending := rest, calls := calls ars @ [CallNext]\<rparr>) cs
          else (fst (collectStep p k a ev cs),
                ars\<lparr>pending := rest, calls := calls ars @ [CallNext]\<rparr>, cs))"
    using 1
    by (cases "collectStep p k a ev cs"; cases "fst (collectStep p k a ev cs)")
       (simp_all add: collectLoop_Cons [OF p])
  have 4: "drainLoop p (ars\<lparr>pending := ev # rest\<rparr>) cs =
         (if fst (drainStep p ev cs) = Completed
          then drainLoop p (ars\<lparr>pending := rest, calls := calls ars @ [CallNext]\<rparr>) cs
          else (fst (drainStep p ev cs),
                ars\<lparr>pending := rest, calls := calls ars @ [CallNext]\<rparr>, cs))"
    using 2
    by (cases "drainStep p ev cs"; cases "fst (drainStep p ev cs)")
       (simp_all add: drainLoop_Cons [OF p])
  from 1 2 3 4 show ?thesis by blast
qed

theorem failed_completion_adds_no_cursor_witness:
  "parsed parseDoc (repliedError ''shard2'' ''host2'' 26) = None
   \<and> snd (collectStep parseDoc retriable True (repliedError ''shard2'' ''host2'' 26)
        [cursorAt ''shard1'' ''host1'' ''coll'' 101]) =
      [cursorAt ''shard1'' ''host1'' ''coll'' 101]
   \<and> snd (drainStep parseDoc (repliedError ''shard2'' ''host2'' 26)
        [cursorAt ''shard1'' ''host1'' ''coll'' 101]) =
      [cursorAt ''shard1'' ''host1'' ''coll'' 101]"
proof -
  have 1: "parsed parseDoc (repliedError ''shard2'' ''host2'' 26) = None"
    by (simp add: parsed_def repliedError_def)
  show ?thesis
    using 1 failed_completion_adds_no_cursor [OF 1, of retriable True
        "[cursorAt ''shard1'' ''host1'' ''coll'' 101]"]
    by blast
qed

end
